theory Spec2Isabelle
  imports Main "HOL-Library.AList"
begin

section \<open>Regular expressions as the loader uses them\<close>

text \<open>
  The loader matches its lines with four Perl-syntax regular expressions. They are kept
  here as terms of a small regular-expression datatype, and matched by a backtracking
  matcher that tries alternatives from left to right and repetitions greedily, which is the
  order the Perl syntax prescribes. A match state holds the text already consumed (in
  reverse), the text still to be read, and the text of the marked sub-expressions.
\<close>

datatype rx = Chr "char \<Rightarrow> bool" | Eol | Eps | Seq rx rx | Alt rx rx | Star rx | Grp nat rx

record mstate =
  seen :: string
  rest :: string
  caps :: "nat \<Rightarrow> string"

definition isLineBreak :: "char \<Rightarrow> bool" where
  "isLineBreak c = (c = CHR 0x0A \<or> c = CHR 0x0D \<or> c = CHR 0x0C)"

definition atEol :: "mstate \<Rightarrow> bool" where
  \<comment> \<open>\<open>$\<close>: the end of the text, or the place before a line break (not inside CR LF).\<close>
  "atEol m = (case rest m of [] \<Rightarrow> True
     | c # _ \<Rightarrow> isLineBreak c \<and>
         \<not> (c = CHR 0x0A \<and> (case seen m of [] \<Rightarrow> False | p # _ \<Rightarrow> p = CHR 0x0D)))"

primrec star_k :: "nat \<Rightarrow> ((mstate \<Rightarrow> mstate option) \<Rightarrow> mstate \<Rightarrow> mstate option) \<Rightarrow>
    (mstate \<Rightarrow> mstate option) \<Rightarrow> mstate \<Rightarrow> mstate option" where
  "star_k 0 body k m = k m"
| "star_k (Suc n) body k m =
     (case body (star_k n body k) m of Some r \<Rightarrow> Some r | None \<Rightarrow> k m)"

primrec mk :: "rx \<Rightarrow> (mstate \<Rightarrow> mstate option) \<Rightarrow> mstate \<Rightarrow> mstate option" where
  "mk (Chr p) k m = (case rest m of [] \<Rightarrow> None
      | c # cs \<Rightarrow> if p c then k (m\<lparr>seen := c # seen m, rest := cs\<rparr>) else None)"
| "mk Eol k m = (if atEol m then k m else None)"
| "mk Eps k m = k m"
| "mk (Seq r1 r2) k m = mk r1 (mk r2 k) m"
| "mk (Alt r1 r2) k m = (case mk r1 k m of Some r \<Rightarrow> Some r | None \<Rightarrow> mk r2 k m)"
| "mk (Star r) k m = star_k (length (rest m)) (mk r) k m"
| "mk (Grp i r) k m =
     mk r (\<lambda>m'. k (m'\<lparr>caps := (caps m')
                (i := rev (take (length (seen m') - length (seen m)) (seen m')))\<rparr>)) m"

text \<open>
  Every repeated sub-expression of the loader consumes at least one character, so a
  repetition over a text of \<open>n\<close> characters has at most \<open>n\<close> rounds.
\<close>

definition Lit :: "char \<Rightarrow> rx" where
  "Lit c = Chr (\<lambda>x. x = c)"

definition Plus :: "rx \<Rightarrow> rx" where
  "Plus r = Seq r (Star r)"

definition Opt :: "rx \<Rightarrow> rx" where
  "Opt r = Alt r Eps"

definition Any :: rx where
  "Any = Chr (\<lambda>_. True)"

fun Str :: "string \<Rightarrow> rx" where
  "Str [] = Eps"
| "Str (c # cs) = Seq (Lit c) (Str cs)"

definition regex_match :: "rx \<Rightarrow> string \<Rightarrow> mstate option" where
  \<comment> \<open>the expression has to match the whole text\<close>
  "regex_match r s =
     mk r (\<lambda>m. if rest m = [] then Some m else None) \<lparr>seen = [], rest = s, caps = (\<lambda>_. [])\<rparr>"

fun search :: "rx \<Rightarrow> string \<Rightarrow> string \<Rightarrow> (string \<times> mstate) option" where
  "search r sn [] =
     (case mk r Some \<lparr>seen = sn, rest = [], caps = (\<lambda>_. [])\<rparr> of
        Some m \<Rightarrow> Some (sn, m) | None \<Rightarrow> None)"
| "search r sn (c # cs) =
     (case mk r Some \<lparr>seen = sn, rest = c # cs, caps = (\<lambda>_. [])\<rparr> of
        Some m \<Rightarrow> Some (sn, m) | None \<Rightarrow> search r (c # sn) cs)"

definition matched :: "string \<Rightarrow> mstate \<Rightarrow> string" where
  \<comment> \<open>the text of a match that began when \<open>sn\<close> had been consumed\<close>
  "matched sn m = rev (take (length (seen m) - length sn) (seen m))"

definition advance :: "nat \<Rightarrow> mstate \<Rightarrow> mstate" where
  \<comment> \<open>the state after \<open>i\<close> more characters have been consumed\<close>
  "advance i m = m\<lparr>seen := rev (take i (rest m)) @ seen m, rest := drop i (rest m)\<rparr>"

definition isAlpha :: "char \<Rightarrow> bool" where
  "isAlpha c = (c \<in> set ''ABCDEFGHIJKLMNOPQRSTUVWXYZabcdefghijklmnopqrstuvwxyz'')"

definition isIdentChar :: "char \<Rightarrow> bool" where
  "isIdentChar c = (isAlpha c \<or> c \<in> set ''0123456789_-'')"

definition identRx :: rx where
  \<comment> \<open>\<open>[A-Za-z][A-Za-z0-9_-]*\<close>\<close>
  "identRx = Seq (Chr isAlpha) (Star (Chr isIdentChar))"

definition includeParse :: rx where
  \<comment> \<open>\<open>use "(.*)"\<close>\<close>
  "includeParse =
     Seq (Str (''use '' @ [CHR 0x22])) (Seq (Grp 1 (Star Any)) (Lit (CHR 0x22)))"

definition filenameParse :: rx where
  \<comment> \<open>\<open>/[^/]*$\<close>\<close>
  "filenameParse = Seq (Lit CHR ''/'') (Seq (Star (Chr (\<lambda>c. c \<noteq> CHR ''/''))) Eol)"

definition lineParse :: rx where
  \<comment> \<open>\<open>([A-Za-z][A-Za-z0-9_-]*) +([A-Za-z][A-Za-z0-9_-]*) *= *((?:[^\n# ]|".*")*) *(?:#.*)?\<close>\<close>
  "lineParse =
     Seq (Grp 1 identRx) (Seq (Plus (Lit CHR '' '')) (Seq (Grp 2 identRx)
     (Seq (Star (Lit CHR '' '')) (Seq (Lit CHR ''='') (Seq (Star (Lit CHR '' ''))
     (Seq (Grp 3 (Star (Alt
             (Chr (\<lambda>c. c \<noteq> CHR 0x0A \<and> c \<noteq> CHR ''#'' \<and> c \<noteq> CHR '' ''))
             (Seq (Lit (CHR 0x22)) (Seq (Star Any) (Lit (CHR 0x22)))))))
     (Seq (Star (Lit CHR '' '')) (Opt (Seq (Lit CHR ''#'') (Star Any))))))))))"

definition varSearch :: rx where
  \<comment> \<open>\<open>\$([A-Za-z][A-Za-z0-9_-]*)\<close>\<close>
  "varSearch = Seq (Lit CHR ''$'') (Grp 1 identRx)"

text \<open>
  \<open>replace_regex_copy\<close> replaces the first match by a format string. A format string
  without \<open>$\<close> and without a backslash stands for itself; what the formatter makes of one
  that has them is left open, as the parameter \<open>fmt\<close> (it is given the format string, the
  text before the match, the match and the text after it).
\<close>

type_synonym formatter = "string \<Rightarrow> string \<times> string \<times> string \<Rightarrow> string"

definition regex_format :: "formatter \<Rightarrow> string \<Rightarrow> string \<times> string \<times> string \<Rightarrow> string" where
  "regex_format fmt f m =
     (if list_all (\<lambda>c. c \<noteq> CHR ''$'' \<and> c \<noteq> CHR 0x5C) f then f else fmt f m)"

definition replace_regex_copy :: "formatter \<Rightarrow> string \<Rightarrow> rx \<Rightarrow> string \<Rightarrow> string" where
  "replace_regex_copy fmt input r f =
     (case search r [] input of
        None \<Rightarrow> input
      | Some (sn, m) \<Rightarrow> rev sn @ regex_format fmt f (rev sn, matched sn m, rest m) @ rest m)"

text \<open>
  \<open>regex_replace\<close> with a function as the formatter visits every match from left to
  right. The text is cut into the pieces between the matches (\<open>Inl\<close>) and the matches
  (\<open>Inr\<close>); a search goes on where the last match ended.
\<close>

function regex_tokens :: "rx \<Rightarrow> string \<Rightarrow> string \<Rightarrow> (string + mstate) list" where
  "regex_tokens r sn s =
     (case search r sn s of
        None \<Rightarrow> [Inl s]
      | Some (sn', m) \<Rightarrow>
          Inl (rev (take (length sn' - length sn) sn')) # Inr m #
            (if length (rest m) < length s then regex_tokens r (seen m) (rest m)
             else [Inl (rest m)]))"
  by pat_completeness auto
termination
  by (relation "measure (\<lambda>(r, sn, s). length s)") auto

declare regex_tokens.simps [simp del]

section \<open>Values and tables\<close>

text \<open>
  A \<open>configValue\<close> is the name of its type and an anonymous union. The union is the
  member written last; \<open>Indeterminate\<close> is a union nothing was written to. An \<open>int\<close> has
  32 bits. A \<open>float\<close> is a number of the IEEE single format: a sign, a mantissa \<open>m\<close> below
  \<open>2^24\<close> and an exponent \<open>e\<close> from \<open>-149\<close> to \<open>104\<close>, for the number \<open>m * 2^e\<close>; the
  mantissa of a normal number is \<open>2^23\<close> at least, a subnormal number has the exponent
  \<open>-149\<close>, and zero is \<open>0 * 2^0\<close>.
\<close>

type_synonym cfloat = "bool \<times> int \<times> int"

datatype union =
    Indeterminate
  | IntVal (intVal: int)
  | FloatVal (floatVal: cfloat)
  | CharVal (charVal: char)
  | BoolVal (boolVal: bool)
  | StringVal (stringVal: string)

record configValue =
  type :: string
  un :: union

text \<open>
  The table is an \<open>unordered_map\<close>: keys are unique, and the order in which a loop visits
  the entries is not specified. It is kept as an association list that is only changed
  by \<open>AList.update\<close>; the order of the list stands for the order of the visit.
\<close>

type_synonym ConfigTable = "(string \<times> configValue) list"

section \<open>Reading numbers, characters and strings\<close>

definition isspace :: "char \<Rightarrow> bool" where
  "isspace c = (c \<in> set [CHR '' '', CHR 0x09, CHR 0x0A, CHR 0x0B, CHR 0x0C, CHR 0x0D])"

definition c_str :: "string \<Rightarrow> string" where
  \<comment> \<open>a C string ends at the first NUL\<close>
  "c_str s = takeWhile (\<lambda>c. c \<noteq> CHR 0x00) s"

definition digitOf :: "nat \<Rightarrow> char \<Rightarrow> nat option" where
  "digitOf base c =
     (let v = (if c \<in> set ''0123456789'' then Some (of_char c - 48)
               else if c \<in> set ''abcdef'' then Some (of_char c - 87)
               else if c \<in> set ''ABCDEF'' then Some (of_char c - 55)
               else None)
      in case v of None \<Rightarrow> None | Some d \<Rightarrow> if d < base then Some d else None)"

fun readDigits :: "nat \<Rightarrow> string \<Rightarrow> int \<Rightarrow> nat \<Rightarrow> int \<times> nat \<times> string" where
  \<comment> \<open>the value and the number of the digits read, and the text after them\<close>
  "readDigits base [] v n = (v, n, [])"
| "readDigits base (c # cs) v n =
     (case digitOf base c of
        Some d \<Rightarrow> readDigits base cs (v * int base + int d) (Suc n)
      | None \<Rightarrow> (v, n, c # cs))"

text \<open>
  The state of an \<open>istringstream\<close> after one \<open>>>\<close>: what was stored, if anything, and
  the \<open>eof\<close> and \<open>fail\<close> bits. The extraction skips white space, reads a sign, for base 16
  a prefix \<open>0x\<close>, and the longest run of digits; it fails without a digit and outside the
  range of \<open>int\<close>; \<open>eof\<close> is set when the text ended while reading.
\<close>

record 'a extraction =
  stored :: "'a option"
  eof :: bool
  fail :: bool

definition readSign :: "string \<Rightarrow> bool \<times> string" where
  "readSign s = (case s of [] \<Rightarrow> (False, [])
     | c # cs \<Rightarrow> if c = CHR ''-'' then (True, cs) else if c = CHR ''+'' then (False, cs)
                else (False, c # cs))"

definition readPrefix :: "nat \<Rightarrow> string \<Rightarrow> string" where
  "readPrefix base s = (case s of
       z # x # cs \<Rightarrow> if base = 16 \<and> z = CHR ''0'' \<and> (x = CHR ''x'' \<or> x = CHR ''X'') then cs
                     else s
     | _ \<Rightarrow> s)"

definition extractInt :: "nat \<Rightarrow> string \<Rightarrow> int extraction" where
  "extractInt base s =
     (let s1 = dropWhile isspace s in
      if s1 = [] then \<lparr>stored = None, eof = True, fail = True\<rparr>
      else
        let (neg, s2) = readSign s1;
            (v, n, s3) = readDigits base (readPrefix base s2) 0 0;
            sv = (if neg then - v else v)
        in if n = 0 then \<lparr>stored = Some 0, eof = (s3 = []), fail = True\<rparr>
           else if 2147483647 < sv then \<lparr>stored = Some 2147483647, eof = (s3 = []), fail = True\<rparr>
           else if sv < - 2147483648 then
             \<lparr>stored = Some (- 2147483648), eof = (s3 = []), fail = True\<rparr>
           else \<lparr>stored = Some sv, eof = (s3 = []), fail = False\<rparr>)"

definition readExponent :: "string \<Rightarrow> (int \<times> string) option" where
  \<comment> \<open>after \<open>e\<close> or \<open>E\<close>: a sign and digits; \<open>None\<close> when the digits are missing\<close>
  "readExponent s =
     (let (neg, s1) = readSign s; (v, n, s2) = readDigits 10 s1 0 0
      in if n = 0 then None else Some (if neg then - v else v, s2))"

text \<open>
  The extraction of a \<open>float\<close> collects a sign, digits, a point, digits and an exponent,
  and converts what it collected with \<open>strtof\<close>: the decimal number \<open>d * 10^x\<close> is
  rounded to the nearest number of the single format, to the one with the even mantissa
  when it is half-way between two. A number that rounds beyond the largest one is an
  overflow: the largest number is stored and the extraction fails. A number too small for
  the format is rounded in the same way, to a subnormal number or to zero, and is not an
  error.
\<close>

function bitLength :: "int \<Rightarrow> int" where
  \<comment> \<open>the number of binary digits of a positive number\<close>
  "bitLength n = (if n \<le> 0 then 0 else 1 + bitLength (n div 2))"
  by auto
termination
  by (relation "measure nat") auto

declare bitLength.simps [simp del]

definition floorLog2 :: "int \<Rightarrow> int \<Rightarrow> int" where
  \<comment> \<open>the largest \<open>l\<close> with \<open>2^l \<le> a / b\<close>, for positive \<open>a\<close> and \<open>b\<close>\<close>
  "floorLog2 a b =
     (let l = bitLength a - bitLength b
      in if (if 0 \<le> l then b * 2 ^ nat l \<le> a else b \<le> a * 2 ^ nat (- l)) then l else l - 1)"

definition roundHalfEven :: "int \<Rightarrow> int \<Rightarrow> int" where
  \<comment> \<open>\<open>a / b\<close> rounded to the nearest integer, to the even one of two that are as near\<close>
  "roundHalfEven a b =
     (let q = a div b; r = a mod b
      in if 2 * r < b then q else if b < 2 * r then q + 1 else if even q then q else q + 1)"

definition strtof :: "int \<Rightarrow> int \<Rightarrow> (int \<times> int) option" where
  \<comment> \<open>mantissa and exponent of the float nearest to \<open>d * 10^x\<close>, for \<open>d\<close> not negative;
      \<open>None\<close> is the overflow\<close>
  "strtof d x =
     (if d = 0 then Some (0, 0)
      else
        let a = (if 0 \<le> x then d * 10 ^ nat x else d);
            b = (if 0 \<le> x then 1 else 10 ^ nat (- x));
            e = max (floorLog2 a b - 23) (- 149);
            m = (if 0 \<le> e then roundHalfEven a (b * 2 ^ nat e)
                 else roundHalfEven (a * 2 ^ nat (- e)) b)
        in if m = 0 then Some (0, 0)
           else if m = 2 ^ 24 then (if 104 < e + 1 then None else Some (2 ^ 23, e + 1))
           else if 104 < e then None
           else Some (m, e))"

definition convert_to_float :: "bool \<Rightarrow> int \<Rightarrow> int \<Rightarrow> bool \<Rightarrow> cfloat extraction" where
  \<comment> \<open>the end of the extraction, for the sign, the digits and the power of ten collected;
      \<open>atEnd\<close>: the text ended while collecting\<close>
  "convert_to_float neg d x atEnd =
     (case strtof d x of
        None \<Rightarrow> \<lparr>stored = Some (neg, 16777215, 104), eof = atEnd, fail = True\<rparr>
      | Some (m, e) \<Rightarrow> \<lparr>stored = Some (neg, m, e), eof = atEnd, fail = False\<rparr>)"

definition extractFloat :: "string \<Rightarrow> cfloat extraction" where
  "extractFloat s =
     (let s1 = dropWhile isspace s in
      if s1 = [] then \<lparr>stored = None, eof = True, fail = True\<rparr>
      else
        let (neg, s2) = readSign s1;
            (v1, n1, s3) = readDigits 10 s2 0 0;
            (v2, n2, s4) = (case s3 of
                c # cs \<Rightarrow> if c = CHR ''.'' then readDigits 10 cs v1 0 else (v1, 0, s3)
              | [] \<Rightarrow> (v1, 0, s3))
        in if n1 + n2 = 0 then \<lparr>stored = Some (False, 0, 0), eof = (s4 = []), fail = True\<rparr>
           else (case s4 of
               c # cs \<Rightarrow>
                 if c = CHR ''e'' \<or> c = CHR ''E'' then
                   (case readExponent cs of
                      None \<Rightarrow>
                        \<lparr>stored = Some (False, 0, 0), eof = (snd (readSign cs) = []), fail = True\<rparr>
                    | Some (e, s5) \<Rightarrow> convert_to_float neg v2 (e - int n2) (s5 = []))
                 else convert_to_float neg v2 (- int n2) False
             | [] \<Rightarrow> convert_to_float neg v2 (- int n2) True))"

text \<open>
  \<open>sscanf\<close> for the formats of the loader: a format is a list of ordinary characters,
  \<open>%c\<close> and \<open>%[...]\<close>, with at most one conversion. The result is the count that
  \<open>sscanf\<close> returns (\<open>EOF\<close> is \<open>-1\<close>: the text ended before the first conversion) and the
  characters that were stored.
\<close>

datatype directive = Ord char | PercentC | Scanset "char \<Rightarrow> bool"

fun sscanf :: "string \<Rightarrow> directive list \<Rightarrow> int \<Rightarrow> string \<Rightarrow> int \<times> string" where
  "sscanf s [] n out = (n, out)"
| "sscanf [] (d # ds) n out = (if n = 0 then (- 1, out) else (n, out))"
| "sscanf (c # cs) (Ord x # ds) n out = (if c = x then sscanf cs ds n out else (n, out))"
| "sscanf (c # cs) (PercentC # ds) n out = sscanf cs ds (n + 1) [c]"
| "sscanf (c # cs) (Scanset p # ds) n out =
     (if p c then sscanf (dropWhile p (c # cs)) ds (n + 1) (takeWhile p (c # cs))
      else (n, out))"

section \<open>parseValue\<close>

definition check :: "configValue \<Rightarrow> bool \<Rightarrow> bool \<Rightarrow> bool \<Rightarrow> bool \<Rightarrow> configValue" where
  \<comment> \<open>the check for syntax errors at the end of \<open>parseValue\<close>\<close>
  "check value used_iss iss_eof iss_fail formatError =
     (if (used_iss \<and> (\<not> iss_eof \<or> iss_fail)) \<or> formatError
      then value\<lparr>type := ''invalid syntax''\<rparr> else value)"

definition store :: "('a \<Rightarrow> union) \<Rightarrow> 'a option \<Rightarrow> configValue \<Rightarrow> configValue" where
  "store member x value = (case x of None \<Rightarrow> value | Some v \<Rightarrow> value\<lparr>un := member v\<rparr>)"

definition firstChar :: "string \<Rightarrow> char option" where
  \<comment> \<open>the character that \<open>%c\<close> stored\<close>
  "firstChar out = (case out of [] \<Rightarrow> None | c # _ \<Rightarrow> Some c)"

definition parseValue :: "string \<Rightarrow> string \<Rightarrow> configValue" where
  "parseValue ty valueText =
     (let cValueText = c_str valueText;
          value = \<lparr>type = ty, un = Indeterminate\<rparr>;
          quote = CHR 0x22; apostrophe = CHR 0x27
      in
      if ty = ''int'' then
        (let x = extractInt 10 valueText
         in check (store IntVal (stored x) value) True (eof x) (fail x) False)
      else if ty = ''hex'' then
        (let x = extractInt 16 valueText
         in check (store IntVal (stored x) value\<lparr>type := ''int''\<rparr>) True (eof x) (fail x) False)
      else if ty = ''octal'' then
        (let x = extractInt 8 valueText
         in check (store IntVal (stored x) value\<lparr>type := ''int''\<rparr>) True (eof x) (fail x) False)
      else if ty = ''float'' then
        (let x = extractFloat valueText
         in check (store FloatVal (stored x) value) True (eof x) (fail x) False)
      else if ty = ''bool'' \<or> ty = ''boolean'' then
        (if valueText = ''true'' \<or> valueText = ''1'' then
           check (value\<lparr>un := BoolVal True, type := ''bool''\<rparr>) False False False False
         else if valueText = ''false'' \<or> valueText = ''0'' then
           check (value\<lparr>un := BoolVal False, type := ''bool''\<rparr>) False False False False
         else check (value\<lparr>type := ''bool''\<rparr>) False False False True)
      else if ty = ''char'' then
        (case sscanf cValueText [Ord apostrophe, PercentC, Ord apostrophe] 0 [] of
           (n1, out1) \<Rightarrow>
             if n1 < 1 then
               (case sscanf cValueText [PercentC] 0 [] of
                  (n2, out2) \<Rightarrow>
                    if n2 < 1 then check value False False False True
                    else check (store CharVal (firstChar out2) value)
                           False False False False)
             else check (store CharVal (firstChar out1) value)
                    False False False False)
      else if ty = ''string'' then
        (case sscanf cValueText [Ord quote, Scanset (\<lambda>c. c \<noteq> quote), Ord quote] 0 [] of
           (n1, out1) \<Rightarrow>
             if n1 < 1 then
               (case sscanf cValueText [Scanset (\<lambda>c. c \<noteq> quote)] 0 [] of
                  (n2, out2) \<Rightarrow>
                    if n2 < 1 then check value False False False True
                    else check (value\<lparr>un := StringVal out2\<rparr>) False False False False)
             else check (value\<lparr>un := StringVal out1\<rparr>) False False False False)
      else value\<lparr>type := ''invalid type name''\<rparr>)"

section \<open>Loading a file\<close>

fun isAllWhitespace_loop :: "string \<Rightarrow> bool \<Rightarrow> bool" where
  \<comment> \<open>the loop over the characters of the line, with the flag \<open>allWhitespace\<close>; the index
      is an \<open>int\<close>, and a line is taken to have fewer than \<open>2^31\<close> characters\<close>
  "isAllWhitespace_loop [] allWhitespace = allWhitespace"
| "isAllWhitespace_loop (c # cs) allWhitespace =
     (if c = CHR ''#'' then allWhitespace
      else isAllWhitespace_loop cs (allWhitespace \<and> c = CHR '' ''))"

definition isAllWhitespace :: "string \<Rightarrow> bool" where
  "isAllWhitespace line = isAllWhitespace_loop line True"

text \<open>
  Every \<open>exit(1)\<close> of the source is an error value that carries what the message on
  \<open>cerr\<close> names; a warning is a message on \<open>cerr\<close> after which the code goes on.
\<close>

datatype error =
    FileNotFound string
  | UnexpectedEndOfLine string nat
  | InvalidTypeName string nat string
  | InvalidValueFormat string nat
  | MissingType string
  | MissingTypeOrValue string
  | UserInvalidTypeName string string
  | UserInvalidValueFormat string
  | NotFound string
  | TypeMismatch string string string

datatype warning =
    IncludeRebound string string
  | Rebound string nat string

type_synonym loaded = "(error + ConfigTable \<times> warning list) option"

definition trim_left :: "string \<Rightarrow> string" where
  "trim_left s = dropWhile isspace s"

definition canonical :: "string \<Rightarrow> string" where
  \<comment> \<open>the type name that the loader stores for a declared type name\<close>
  "canonical ty =
     (if ty = ''hex'' \<or> ty = ''octal'' then ''int''
      else if ty = ''boolean'' then ''bool''
      else ty)"

fun mergeInclude :: "string \<Rightarrow> ConfigTable \<Rightarrow> ConfigTable \<times> warning list \<Rightarrow>
    ConfigTable \<times> warning list" where
  \<comment> \<open>the loop that writes the entries of an included table over the result\<close>
  "mergeInclude newFilename [] (result, w) = (result, w)"
| "mergeInclude newFilename ((name, value) # t) (result, w) =
     mergeInclude newFilename t
       (AList.update name value result,
        if map_of result name \<noteq> None then w @ [IncludeRebound newFilename name] else w)"

text \<open>
  A file is the list of the lines that \<open>getline\<close> reads from it, and the file system maps
  a path to its file. The loop over the lines takes the loader for the included files as
  \<open>load\<close>; \<open>None\<close> is a load that does not return.
\<close>

type_synonym files = "string \<Rightarrow> string list option"

definition loadLine :: "(string \<Rightarrow> loaded) \<Rightarrow> formatter \<Rightarrow> string \<Rightarrow> nat \<Rightarrow> string \<Rightarrow>
    ConfigTable \<times> warning list \<Rightarrow> loaded" where
  \<comment> \<open>the body of the loop over the lines, for one line\<close>
  "loadLine load fmt filename lineNum line st =
     (case st of (result, w) \<Rightarrow>
      if \<not> isAllWhitespace line then
        (case regex_match includeParse line of
           Some parseResult \<Rightarrow>
             (let newFilename =
                    replace_regex_copy fmt filename filenameParse (CHR ''/'' # caps parseResult 1)
              in case load newFilename of
                   None \<Rightarrow> None
                 | Some (Inl e) \<Rightarrow> Some (Inl e)
                 | Some (Inr (t, w')) \<Rightarrow> Some (Inr (mergeInclude newFilename t (result, w @ w'))))
         | None \<Rightarrow>
             (case regex_match lineParse line of
                None \<Rightarrow> Some (Inl (UnexpectedEndOfLine filename lineNum))
              | Some parseResult \<Rightarrow>
                  (let ty = caps parseResult 1;
                       name = caps parseResult 2;
                       valueText = trim_left (caps parseResult 3);
                       value = parseValue ty valueText
                   in if type value = ''invalid type name'' then
                        Some (Inl (InvalidTypeName filename lineNum ty))
                      else if type value = ''invalid syntax'' then
                        Some (Inl (InvalidValueFormat filename lineNum))
                      else
                        Some (Inr (AList.update name (value\<lparr>type := canonical ty\<rparr>) result,
                                   if map_of result name \<noteq> None
                                   then w @ [Rebound filename lineNum name] else w)))))
      else Some (Inr (result, w)))"

fun loadLines :: "(string \<Rightarrow> loaded) \<Rightarrow> formatter \<Rightarrow> string \<Rightarrow> nat \<Rightarrow> string list \<Rightarrow>
    ConfigTable \<times> warning list \<Rightarrow> loaded" where
  \<comment> \<open>the loop: \<open>for (int lineNum = 1; getline(input, line); lineNum++)\<close>\<close>
  "loadLines load fmt filename lineNum [] st = Some (Inr st)"
| "loadLines load fmt filename lineNum (line # lines) st =
     (case loadLine load fmt filename lineNum line st of
        None \<Rightarrow> None
      | Some (Inl e) \<Rightarrow> Some (Inl e)
      | Some (Inr st') \<Rightarrow> loadLines load fmt filename (Suc lineNum) lines st')"

primrec loadConfig :: "formatter \<Rightarrow> nat \<Rightarrow> files \<Rightarrow> string \<Rightarrow> loaded" where
  \<comment> \<open>the number bounds the depth of the includes\<close>
  "loadConfig fmt 0 fs filename = None"
| "loadConfig fmt (Suc n) fs filename =
     (case fs filename of
        None \<Rightarrow> Some (Inl (FileNotFound filename))
      | Some lines \<Rightarrow> loadLines (loadConfig fmt n fs) fmt filename 1 lines ([], []))"

fun mergeConfigTables :: "ConfigTable \<Rightarrow> ConfigTable \<Rightarrow> ConfigTable" where
  "mergeConfigTables c1 [] = c1"
| "mergeConfigTables c1 ((name, value) # c2) = mergeConfigTables (AList.update name value c1) c2"

section \<open>The class Configuration\<close>

text \<open>
  The static members of the class, and what was written to \<open>cerr\<close> as warnings. The
  instance is its table \<open>config\<close>.
\<close>

record statics =
  m_instance :: "ConfigTable option"
  configFile :: string
  userDefs :: ConfigTable
  cerr :: "warning list"

fun initArgs :: "formatter \<Rightarrow> nat \<Rightarrow> files \<Rightarrow> string list \<Rightarrow> statics \<Rightarrow> (error + statics) option"
  where
  \<comment> \<open>the loop of \<open>initConfig\<close> over \<open>argv[i]\<close>, \<open>argv[i + 1]\<close>, ...\<close>
  "initArgs fmt n fs [] S = Some (Inr S)"
| "initArgs fmt n fs (a # as) S =
     (if a = ''--use-config'' \<and> as \<noteq> [] then
        initArgs fmt n fs (tl as) (S\<lparr>configFile := hd as\<rparr>)
      else if a = ''--add-config'' \<and> as \<noteq> [] then
        (case loadConfig fmt n fs (hd as) of
           None \<Rightarrow> None
         | Some (Inl e) \<Rightarrow> Some (Inl e)
         | Some (Inr (t, w)) \<Rightarrow>
             initArgs fmt n fs (tl as)
               (S\<lparr>userDefs := mergeConfigTables t (userDefs S), cerr := cerr S @ w\<rparr>))
      else if take 2 a = ''-D'' then
        (let name = drop 2 a
         in if as = [] then Some (Inl (MissingType name))
            else if tl as = [] then Some (Inl (MissingTypeOrValue name))
            else
              (let ty = hd as; value = hd (tl as); v = parseValue ty value
               in if type v = ''invalid type name'' then Some (Inl (UserInvalidTypeName name ty))
                  else if type v = ''invalid syntax'' then Some (Inl (UserInvalidValueFormat name))
                  else initArgs fmt n fs (tl (tl as)) (S\<lparr>userDefs := AList.update name v (userDefs S)\<rparr>)))
      else initArgs fmt n fs as S)"

definition initConfig :: "formatter \<Rightarrow> nat \<Rightarrow> files \<Rightarrow> string list \<Rightarrow> string \<Rightarrow> statics \<Rightarrow>
    (error + statics) option" where
  \<comment> \<open>\<open>initConfig(argc, argv, defaultFilename)\<close>; the loop starts at \<open>argv[1]\<close>\<close>
  "initConfig fmt n fs argv defaultFilename S =
     initArgs fmt n fs (drop 1 argv) (S\<lparr>configFile := defaultFilename\<rparr>)"

definition initConfigFile :: "string \<Rightarrow> statics \<Rightarrow> statics" where
  \<comment> \<open>\<open>initConfig(filename)\<close>\<close>
  "initConfigFile filename S = S\<lparr>configFile := filename\<rparr>"

definition get :: "formatter \<Rightarrow> nat \<Rightarrow> files \<Rightarrow> statics \<Rightarrow> (error + ConfigTable \<times> statics) option" where
  "get fmt n fs S =
     (case m_instance S of
        Some config \<Rightarrow> Some (Inr (config, S))
      | None \<Rightarrow>
          (case loadConfig fmt n fs (configFile S) of
             None \<Rightarrow> None
           | Some (Inl e) \<Rightarrow> Some (Inl e)
           | Some (Inr (t, w)) \<Rightarrow>
               (let config = mergeConfigTables t (userDefs S)
                in Some (Inr (config, S\<lparr>m_instance := Some config, cerr := cerr S @ w\<rparr>)))))"

definition refresh :: "statics \<Rightarrow> statics" where
  "refresh S = S\<lparr>m_instance := None\<rparr>"

definition startup :: statics where
  \<comment> \<open>the static members when the program starts\<close>
  "startup = \<lparr>m_instance = None, configFile = [], userDefs = [], cerr = []\<rparr>"

section \<open>The getters\<close>

definition getIntConfig :: "ConfigTable \<Rightarrow> string \<Rightarrow> error + int" where
  "getIntConfig config name =
     (case map_of config name of
        None \<Rightarrow> Inl (NotFound name)
      | Some v \<Rightarrow>
          if type v \<noteq> ''int'' then Inl (TypeMismatch name ''int'' (type v))
          else Inr (intVal (un v)))"

definition getFloatConfig :: "ConfigTable \<Rightarrow> string \<Rightarrow> error + cfloat" where
  "getFloatConfig config name =
     (case map_of config name of
        None \<Rightarrow> Inl (NotFound name)
      | Some v \<Rightarrow>
          if type v \<noteq> ''float'' then Inl (TypeMismatch name ''float'' (type v))
          else Inr (floatVal (un v)))"

definition getBoolConfig :: "ConfigTable \<Rightarrow> string \<Rightarrow> error + bool" where
  "getBoolConfig config name =
     (case map_of config name of
        None \<Rightarrow> Inl (NotFound name)
      | Some v \<Rightarrow>
          if type v \<noteq> ''bool'' then Inl (TypeMismatch name ''bool'' (type v))
          else Inr (boolVal (un v)))"

definition getCharConfig :: "ConfigTable \<Rightarrow> string \<Rightarrow> error + char" where
  "getCharConfig config name =
     (case map_of config name of
        None \<Rightarrow> Inl (NotFound name)
      | Some v \<Rightarrow>
          if type v \<noteq> ''char'' then Inl (TypeMismatch name ''char'' (type v))
          else Inr (charVal (un v)))"

text \<open>
  \<open>getStringConfig\<close> replaces every match of \<open>varSearch\<close> by what \<open>expandVar\<close> returns
  for it, and \<open>expandVar\<close> calls \<open>getStringConfig\<close> of the one instance again, for the
  name in the first sub-expression. The number bounds the depth of these calls; \<open>None\<close> is
  a call that does not return. The calls are made from left to right, and the first one
  that exits or does not return ends the whole call.
\<close>

fun expandTokens :: "(string \<Rightarrow> (error + string) option) \<Rightarrow> (string + mstate) list \<Rightarrow>
    (error + string) option" where
  "expandTokens expandVar [] = Some (Inr [])"
| "expandTokens expandVar (Inl s # ts) =
     (case expandTokens expandVar ts of
        None \<Rightarrow> None
      | Some (Inl e) \<Rightarrow> Some (Inl e)
      | Some (Inr out) \<Rightarrow> Some (Inr (s @ out)))"
| "expandTokens expandVar (Inr match # ts) =
     (case expandVar (caps match 1) of
        None \<Rightarrow> None
      | Some (Inl e) \<Rightarrow> Some (Inl e)
      | Some (Inr v) \<Rightarrow>
          (case expandTokens expandVar ts of
             None \<Rightarrow> None
           | Some (Inl e) \<Rightarrow> Some (Inl e)
           | Some (Inr out) \<Rightarrow> Some (Inr (v @ out))))"

primrec getStringConfig :: "nat \<Rightarrow> ConfigTable \<Rightarrow> string \<Rightarrow> (error + string) option" where
  "getStringConfig 0 config name = None"
| "getStringConfig (Suc n) config name =
     (case map_of config name of
        None \<Rightarrow> Some (Inl (NotFound name))
      | Some v \<Rightarrow>
          if type v \<noteq> ''string'' then Some (Inl (TypeMismatch name ''string'' (type v)))
          else expandTokens (getStringConfig n config) (regex_tokens varSearch [] (stringVal (un v))))"

section \<open>Example inputs\<close>

definition quoted :: "string \<Rightarrow> string" where
  \<comment> \<open>a text between double quotes\<close>
  "quoted s = CHR 0x22 # s @ [CHR 0x22]"

definition includeOther :: string where
  \<comment> \<open>the line \<open>use "other.txt"\<close>\<close>
  "includeOther = ''use '' @ quoted ''other.txt''"

definition selfInclude :: files where
  \<comment> \<open>one file in the working directory, with an include line\<close>
  "selfInclude = [''config.txt'' \<mapsto> [includeOther]]"

section \<open>Properties of tables and loads\<close>

definition realKinds :: "string list" where
  \<comment> \<open>the five type names of a stored value\<close>
  "realKinds = [''int'', ''float'', ''bool'', ''char'', ''string'']"

definition realTable :: "ConfigTable \<Rightarrow> bool" where
  \<comment> \<open>every entry of the table has one of the five type names\<close>
  "realTable t = list_all (\<lambda>(name, v). type v \<in> set realKinds) t"

definition typeNames :: "string list" where
  \<comment> \<open>the type names that \<open>parseValue\<close> knows\<close>
  "typeNames = [''int'', ''hex'', ''octal'', ''float'', ''bool'', ''boolean'', ''char'', ''string'']"

definition wellFormed :: "ConfigTable \<Rightarrow> bool" where
  \<comment> \<open>the keys are unique, as in an \<open>unordered_map\<close>, and the type names are real\<close>
  "wellFormed t = (distinct (map fst t) \<and> realTable t)"

definition lineBinding :: "(string \<Rightarrow> loaded) \<Rightarrow> formatter \<Rightarrow> string \<Rightarrow> string \<Rightarrow> string \<Rightarrow>
    configValue option" where
  \<comment> \<open>the value that one line of a file gives to a name: by an assignment to that name, or by
      the include of a file whose table has the name\<close>
  "lineBinding load fmt filename line name =
     (if isAllWhitespace line then None
      else case regex_match includeParse line of
          Some parseResult \<Rightarrow>
            (case load (replace_regex_copy fmt filename filenameParse
                          (CHR ''/'' # caps parseResult 1)) of
               Some (Inr (t, w)) \<Rightarrow> map_of t name
             | _ \<Rightarrow> None)
        | None \<Rightarrow>
            (case regex_match lineParse line of
               None \<Rightarrow> None
             | Some parseResult \<Rightarrow>
                 if caps parseResult 2 = name
                 then Some (parseValue (caps parseResult 1) (trim_left (caps parseResult 3))
                              \<lparr>type := canonical (caps parseResult 1)\<rparr>)
                 else None))"

definition lastBinding :: "(string \<Rightarrow> loaded) \<Rightarrow> formatter \<Rightarrow> string \<Rightarrow> string \<Rightarrow>
    configValue option \<Rightarrow> string list \<Rightarrow> configValue option" where
  \<comment> \<open>the value of the last line that gives one to the name, \<open>before\<close> if no line does\<close>
  "lastBinding load fmt filename name before lines =
     foldl (\<lambda>bound line. case lineBinding load fmt filename line name of
                            None \<Rightarrow> bound | Some v \<Rightarrow> Some v) before lines"

text \<open>
  The loop body tells four kinds of lines apart, in this order: a blank line, an include
  line (with the text between the quotes), an assignment (with the type name, the name and
  the text of the value, trimmed on the left), and a line that matches neither expression.
\<close>

datatype lineKind = Blank | Include string | Assignment string string string | Malformed

definition classify :: "string \<Rightarrow> lineKind" where
  "classify line =
     (if isAllWhitespace line then Blank
      else case regex_match includeParse line of
          Some parseResult \<Rightarrow> Include (caps parseResult 1)
        | None \<Rightarrow>
            (case regex_match lineParse line of
               None \<Rightarrow> Malformed
             | Some parseResult \<Rightarrow>
                 Assignment (caps parseResult 1) (caps parseResult 2)
                   (trim_left (caps parseResult 3))))"

text \<open>
  The texts that \<open>parseValue\<close> does not accept for a type name it knows: for the numbers,
  the extraction failed or did not reach the end of the text; for \<open>bool\<close>, the text is none
  of the four words; for \<open>char\<close>, the text is empty; for \<open>string\<close>, the text is empty, or
  begins with a double quote that is the whole text or has a second double quote right
  after it.
\<close>

definition rejected :: "string \<Rightarrow> string \<Rightarrow> bool" where
  "rejected ty valueText =
     (if ty = ''int'' then fail (extractInt 10 valueText) \<or> \<not> eof (extractInt 10 valueText)
      else if ty = ''hex'' then fail (extractInt 16 valueText) \<or> \<not> eof (extractInt 16 valueText)
      else if ty = ''octal'' then fail (extractInt 8 valueText) \<or> \<not> eof (extractInt 8 valueText)
      else if ty = ''float'' then fail (extractFloat valueText) \<or> \<not> eof (extractFloat valueText)
      else if ty = ''bool'' \<or> ty = ''boolean'' then
        valueText \<notin> set [''true'', ''1'', ''false'', ''0'']
      else if ty = ''char'' then c_str valueText = []
      else if ty = ''string'' then
        (case c_str valueText of
           [] \<Rightarrow> True
         | c # cs \<Rightarrow> c = CHR 0x22 \<and> (case cs of [] \<Rightarrow> True | d # _ \<Rightarrow> d = CHR 0x22))
      else False)"

text \<open>
  A line that the loop goes past without an error: a blank line, an include of a file whose
  load returns a table, and an assignment with a known type name and an accepted text.
\<close>

definition lineLoads :: "(string \<Rightarrow> loaded) \<Rightarrow> formatter \<Rightarrow> string \<Rightarrow> string \<Rightarrow> bool" where
  "lineLoads load fmt filename line =
     (case classify line of
        Blank \<Rightarrow> True
      | Include p \<Rightarrow>
          (case load (replace_regex_copy fmt filename filenameParse (CHR ''/'' # p)) of
             Some (Inr _) \<Rightarrow> True
           | _ \<Rightarrow> False)
      | Assignment ty name valueText \<Rightarrow> ty \<in> set typeNames \<and> \<not> rejected ty valueText
      | Malformed \<Rightarrow> False)"

definition realStatics :: "statics \<Rightarrow> bool" where
  \<comment> \<open>the tables among the static members hold values with real type names\<close>
  "realStatics S =
     (realTable (userDefs S) \<and> (case m_instance S of None \<Rightarrow> True | Some config \<Rightarrow> realTable config))"

definition tableOf :: "loaded \<Rightarrow> (error + ConfigTable) option" where
  \<comment> \<open>the outcome of a load without its warnings\<close>
  "tableOf r = map_option (map_sum id fst) r"

definition refAt :: "string \<Rightarrow> (string \<times> string) option" where
  \<comment> \<open>a reference at the start of a text: \<open>$\<close>, a letter and the longest run of characters of
      a name; the result is the name and the text after it\<close>
  "refAt s = (case s of
       d # a # s' \<Rightarrow>
         if d = CHR ''$'' \<and> isAlpha a
         then Some (a # takeWhile isIdentChar s', dropWhile isIdentChar s') else None
     | _ \<Rightarrow> None)"

fun firstRef :: "string \<Rightarrow> (string \<times> string \<times> string) option" where
  \<comment> \<open>the leftmost reference of a text: the text before it, its name and the text after it\<close>
  "firstRef [] = None"
| "firstRef (c # cs) =
     (case refAt (c # cs) of
        Some (name, post) \<Rightarrow> Some ([], name, post)
      | None \<Rightarrow> map_option (\<lambda>(pre, name, post). (c # pre, name, post)) (firstRef cs))"

function pieces :: "string \<Rightarrow> (string + string) list" where
  \<comment> \<open>a text as its references (\<open>Inr\<close>, the name) and the texts between them (\<open>Inl\<close>)\<close>
  "pieces s =
     (case firstRef s of
        None \<Rightarrow> [Inl s]
      | Some (pre, name, post) \<Rightarrow> Inl pre # Inr name # pieces post)"
  by pat_completeness auto
termination
proof (relation "measure length")
  have at: "length post < length t" if "refAt t = Some (name, post)" for t name post
    using that
    by (auto simp: refAt_def split: list.splits if_splits
             intro: le_imp_less_Suc less_SucI length_dropWhile_le)
  have first: "length post < length t" if "firstRef t = Some (pre, name, post)" for t pre name post
    using that
  proof (induction t arbitrary: pre)
    case Nil
    then show ?case by simp
  next
    case (Cons c cs)
    show ?case
    proof (cases "refAt (c # cs)")
      case (Some p)
      with Cons.prems have "refAt (c # cs) = Some (name, post)" by (cases p) simp
      then show ?thesis by (rule at)
    next
      case None
      with Cons.prems obtain pre' where "firstRef cs = Some (pre', name, post)" by auto
      from Cons.IH [OF this] show ?thesis by simp
    qed
  qed
  fix s x2 pre y name post
  assume "firstRef s = Some x2" "(pre, y) = x2" "(name, post) = y"
  then have "firstRef s = Some (pre, name, post)" by simp
  from first [OF this] show "(post, s) \<in> measure length" by simp
qed simp

declare pieces.simps [simp del]

definition references :: "string \<Rightarrow> string list" where
  \<comment> \<open>the names that a text refers to, from left to right\<close>
  "references s = concat (map (\<lambda>p. case p of Inl _ \<Rightarrow> [] | Inr name \<Rightarrow> [name]) (pieces s))"

definition replaced :: "(string \<Rightarrow> (error + string) option) \<Rightarrow> string + string \<Rightarrow> string \<Rightarrow> bool"
  where
  \<comment> \<open>what stands in the result for one piece: a text between references stands for itself, a
      reference for what \<open>expandVar\<close> returns for its name\<close>
  "replaced expandVar p out =
     (case p of Inl s \<Rightarrow> out = s | Inr name \<Rightarrow> expandVar name = Some (Inr out))"

definition pieceOf :: "string + mstate \<Rightarrow> string + string" where
  \<comment> \<open>a match of \<open>varSearch\<close> as the name it found\<close>
  "pieceOf t = (case t of Inl s \<Rightarrow> Inl s | Inr m \<Rightarrow> Inr (caps m 1))"

definition matchView :: "string \<Rightarrow> string \<times> mstate \<Rightarrow> string \<times> string \<times> string \<times> string" where
  \<comment> \<open>of a match found by \<open>search\<close>: the text skipped, the first sub-expression, and the text
      consumed and the text left after the match\<close>
  "matchView sn p = (case p of (sn', m) \<Rightarrow>
     (rev (take (length sn' - length sn) sn'), caps m 1, seen m, rest m))"

definition resolvable :: "(string \<Rightarrow> nat) \<Rightarrow> ConfigTable \<Rightarrow> bool" where
  \<comment> \<open>every name that the text of a string entry refers to is a string entry of a smaller rank\<close>
  "resolvable rank config =
     list_all (\<lambda>(name, v). type v = ''string'' \<longrightarrow>
        list_all (\<lambda>x. rank x < rank name \<and>
                    (case map_of config x of None \<Rightarrow> False | Some v' \<Rightarrow> type v' = ''string''))
          (references (stringVal (un v)))) config"

definition resolvableOn :: "string list \<Rightarrow> (string \<Rightarrow> nat) \<Rightarrow> ConfigTable \<Rightarrow> bool" where
  \<comment> \<open>the same for the names of a list only: each of them is a string entry, and every name
      that its text refers to is in the list and has a smaller rank\<close>
  "resolvableOn ns rank config =
     list_all (\<lambda>name. case map_of config name of
                   None \<Rightarrow> False
                 | Some v \<Rightarrow> type v = ''string'' \<and>
                     list_all (\<lambda>x. x \<in> set ns \<and> rank x < rank name)
                       (references (stringVal (un v)))) ns"

definition expandOneLevel :: "ConfigTable \<Rightarrow> string \<Rightarrow> string" where
  \<comment> \<open>the reading of the claim C1: every reference stands for the stored text of its name, and
      that text is not expanded again\<close>
  "expandOneLevel config s =
     concat (map (\<lambda>p. case p of
                      Inl l \<Rightarrow> l
                    | Inr name \<Rightarrow> (case map_of config name of
                                    None \<Rightarrow> [] | Some v \<Rightarrow> stringVal (un v)))
               (pieces s))"

definition getterContract :: "(ConfigTable \<Rightarrow> string \<Rightarrow> error + 'a) \<Rightarrow> string \<Rightarrow> (union \<Rightarrow> 'a) \<Rightarrow>
    ConfigTable \<Rightarrow> string \<Rightarrow> bool" where
  \<comment> \<open>the words of the claim C3 for one getter: not found exactly for an absent name, a type
      mismatch exactly for a name of another type, with the name and both types in the
      message, and the stored member otherwise\<close>
  "getterContract getter kind member config name =
     (((\<exists>x. getter config name = Inl (NotFound x)) \<longleftrightarrow> map_of config name = None)
      \<and> (\<forall>x. getter config name = Inl (NotFound x) \<longrightarrow> x = name)
      \<and> ((\<exists>x e f. getter config name = Inl (TypeMismatch x e f)) \<longleftrightarrow>
            (\<exists>v. map_of config name = Some v \<and> type v \<noteq> kind))
      \<and> (\<forall>x e f. getter config name = Inl (TypeMismatch x e f) \<longrightarrow>
            x = name \<and> e = kind \<and> (\<exists>v. map_of config name = Some v \<and> f = type v))
      \<and> (\<forall>v. map_of config name = Some v \<and> type v = kind \<longrightarrow>
            getter config name = Inr (member (un v))))"

section \<open>More example inputs\<close>

definition roundTrip :: "string list" where
  \<comment> \<open>the lines of the round-trip example\<close>
  "roundTrip = [''int X = 42'', ''hex Y = 0x1F'', ''octal Z = 017'']"

definition roundTripTable :: ConfigTable where
  "roundTripTable = [(''X'', \<lparr>type = ''int'', un = IntVal 42\<rparr>),
                     (''Y'', \<lparr>type = ''int'', un = IntVal 31\<rparr>),
                     (''Z'', \<lparr>type = ''int'', un = IntVal 15\<rparr>)]"

definition rootLines :: "string list" where
  \<comment> \<open>a root file that includes \<open>b.cfg\<close> and then assigns \<open>N\<close> itself\<close>
  "rootLines = [''use '' @ quoted ''b.cfg'', ''int N = 2'']"

definition includeFiles :: files where
  "includeFiles = [''cfg/root.cfg'' \<mapsto> rootLines, ''cfg/b.cfg'' \<mapsto> [''int N = 1'']]"

definition plain :: formatter where
  \<comment> \<open>a formatter that copies the format string\<close>
  "plain f m = f"

definition exampleArgv :: "string list" where
  "exampleArgv = [''prog'', ''-DK'', ''hex'', ''ff'', ''--add-config'', ''cfg/b.cfg'']"

definition exampleStatics :: statics where
  "exampleStatics = \<lparr>m_instance = None, configFile = ''cfg/root.cfg'',
      userDefs = [(''N'', \<lparr>type = ''int'', un = IntVal 1\<rparr>), (''K'', \<lparr>type = ''int'', un = IntVal 255\<rparr>)],
      cerr = []\<rparr>"

definition exampleConfig :: ConfigTable where
  "exampleConfig = [(''N'', \<lparr>type = ''int'', un = IntVal 1\<rparr>), (''K'', \<lparr>type = ''int'', un = IntVal 255\<rparr>)]"

definition hexLine :: string where
  "hexLine = ''hex MASK = 0x1F''"

definition chain :: ConfigTable where
  \<comment> \<open>\<open>A\<close> refers to \<open>B\<close>, and \<open>B\<close> to \<open>C\<close>\<close>
  "chain = [(''A'', \<lparr>type = ''string'', un = StringVal ''$B''\<rparr>),
            (''B'', \<lparr>type = ''string'', un = StringVal ''x$C''\<rparr>),
            (''C'', \<lparr>type = ''string'', un = StringVal ''c''\<rparr>)]"

definition chainRank :: "string \<Rightarrow> nat" where
  "chainRank x = (if x = ''A'' then 2 else if x = ''B'' then 1 else 0)"

definition mutual :: ConfigTable where
  \<comment> \<open>\<open>A\<close> and \<open>B\<close> refer to each other\<close>
  "mutual = [(''A'', \<lparr>type = ''string'', un = StringVal ''$B''\<rparr>),
             (''B'', \<lparr>type = ''string'', un = StringVal ''$A''\<rparr>)]"

definition partlyCyclic :: ConfigTable where
  \<comment> \<open>\<open>A\<close> refers to \<open>B\<close>, and \<open>X\<close>, which \<open>A\<close> does not reach, refers to itself\<close>
  "partlyCyclic = [(''A'', \<lparr>type = ''string'', un = StringVal ''$B''\<rparr>),
                   (''B'', \<lparr>type = ''string'', un = StringVal ''b''\<rparr>),
                   (''X'', \<lparr>type = ''string'', un = StringVal ''$X''\<rparr>)]"

definition dangling :: ConfigTable where
  \<comment> \<open>\<open>S\<close> refers to a name that is not in the table\<close>
  "dangling = [(''S'', \<lparr>type = ''string'', un = StringVal ''$M''\<rparr>),
               (''N'', \<lparr>type = ''int'', un = IntVal 7\<rparr>)]"

definition mixed :: ConfigTable where
  \<comment> \<open>\<open>T\<close> refers to a string and then to an entry that is not a string\<close>
  "mixed = [(''C'', \<lparr>type = ''string'', un = StringVal ''c''\<rparr>),
            (''N'', \<lparr>type = ''int'', un = IntVal 7\<rparr>),
            (''T'', \<lparr>type = ''string'', un = StringVal ''$C and $N''\<rparr>)]"

definition badFiles :: files where
  \<comment> \<open>files with a value that is not accepted, and with a type name that is not known\<close>
  "badFiles = [''bad.cfg'' \<mapsto> [''int X = 1'', ''int Y = zz''],
               ''kind.cfg'' \<mapsto> [''foo X = 1''],
               ''big.cfg'' \<mapsto> [''float F = 1e39'']]"

definition redefined :: files where
  \<comment> \<open>a file that assigns \<open>A\<close> twice, with two types\<close>
  "redefined = [''r.cfg'' \<mapsto> [''int A = 1'', ''string A = x'']]"

section \<open>Blank lines\<close>

lemma isAllWhitespace_loop_eq:
  "isAllWhitespace_loop s a =
     (a \<and> (\<forall>c \<in> set (takeWhile (\<lambda>c. c \<noteq> CHR ''#'') s). c = CHR '' ''))"
  by (induction s arbitrary: a) auto

text \<open>
  C9. A line is blank exactly when every character before the first \<open>#\<close> (or before the end
  of the line, if there is none) is a space. The loop goes past a blank line with the
  table and the warnings as they were, so the line gives no entry and no error. A tab
  before any \<open>#\<close> makes the line not blank.
\<close>

theorem blank_line_iff:
  "(isAllWhitespace line \<longleftrightarrow>
      (\<forall>c \<in> set (takeWhile (\<lambda>c. c \<noteq> CHR ''#'') line). c = CHR '' ''))
   \<and> (isAllWhitespace line \<longrightarrow>
        loadLine load fmt filename lineNum line (result, w) = Some (Inr (result, w))
        \<and> loadLines load fmt filename lineNum (line # lines) (result, w)
          = loadLines load fmt filename (Suc lineNum) lines (result, w))
   \<and> (CHR 0x09 \<in> set (takeWhile (\<lambda>c. c \<noteq> CHR ''#'') line) \<longrightarrow> \<not> isAllWhitespace line)"
  by (auto simp: isAllWhitespace_def isAllWhitespace_loop_eq loadLine_def)

theorem blank_line_iff_witness:
  "isAllWhitespace ''   # note''
   \<and> loadLine (\<lambda>_. None) (\<lambda>f m. f) ''a.cfg'' 1 ''   # note'' ([], []) = Some (Inr ([], []))
   \<and> loadLines (\<lambda>_. None) (\<lambda>f m. f) ''a.cfg'' 1 [''   # note''] ([], []) = Some (Inr ([], []))
   \<and> \<not> isAllWhitespace (CHR 0x09 # ''# note'')"
  using blank_line_iff [of "''   # note''" "\<lambda>_. None" "\<lambda>f m. f" "''a.cfg''" 1 "[]" "[]" "[]"]
        blank_line_iff [of "CHR 0x09 # ''# note''" "\<lambda>_. None" "\<lambda>f m. f" "''a.cfg''" 1 "[]" "[]" "[]"]
  by simp

section \<open>Values of single types\<close>

text \<open>
  C10. The text of two double quotes, parsed as a \<open>string\<close>, is a syntax error: the
  conversion \<open>%[^"]\<close> needs one character at least, with the quote in front and without.
\<close>

theorem empty_string_literal_rejected:
  "parseValue ''string'' (quoted []) = \<lparr>type = ''invalid syntax'', un = Indeterminate\<rparr>"
  by code_simp

text \<open>
  C7. The text \<open>abc\<close>, parsed as a \<open>char\<close>, is not a syntax error: \<open>sscanf\<close> with \<open>%c\<close>
  stores the first character and reports one conversion, whatever follows. The text
  \<open>'ab'\<close> is accepted in the same way, a quoted \<open>\n\<close> gives the backslash, and only the
  empty text is a syntax error.
\<close>

theorem char_trailing_text_accepted:
  "parseValue ''char'' ''abc'' = \<lparr>type = ''char'', un = CharVal CHR ''a''\<rparr>
   \<and> parseValue ''char'' (CHR 0x27 # ''ab'' @ [CHR 0x27]) = \<lparr>type = ''char'', un = CharVal CHR ''a''\<rparr>
   \<and> parseValue ''char'' [CHR 0x27, CHR 0x5C, CHR ''n'', CHR 0x27]
        = \<lparr>type = ''char'', un = CharVal (CHR 0x5C)\<rparr>
   \<and> parseValue ''char'' ''a'' = \<lparr>type = ''char'', un = CharVal CHR ''a''\<rparr>
   \<and> parseValue ''char'' [] = \<lparr>type = ''invalid syntax'', un = Indeterminate\<rparr>"
  by code_simp

section \<open>The path of an included file\<close>

lemma no_directory_same_path:
  "replace_regex_copy fmt ''config.txt'' filenameParse (CHR ''/'' # ''other.txt'') = ''config.txt''"
  by code_simp

lemma selfInclude_step:
  assumes "loadConfig fmt n selfInclude ''config.txt'' = None"
  shows "loadConfig fmt (Suc n) selfInclude ''config.txt'' = None"
proof -
  have m: "regex_match includeParse includeOther \<noteq> None"
          "caps (the (regex_match includeParse includeOther)) 1 = ''other.txt''"
          "\<not> isAllWhitespace includeOther"
    by code_simp+
  then obtain pr where pr: "regex_match includeParse includeOther = Some pr"
      "caps pr (Suc 0) = ''other.txt''"
    by auto
  show ?thesis
    using assms by (simp add: selfInclude_def loadLine_def pr m(3) no_directory_same_path)
qed

text \<open>
  C2. For the file \<open>config.txt\<close>, a path without a directory, the include line
  \<open>use "other.txt"\<close> makes the loader read \<open>config.txt\<close> again, not \<open>other.txt\<close> beside it:
  the expression \<open>/[^/]*$\<close> finds nothing to replace in the path. The load of this file
  calls itself without end.
\<close>

theorem include_without_directory:
  "replace_regex_copy fmt ''config.txt'' filenameParse (CHR ''/'' # ''other.txt'') = ''config.txt''
   \<and> loadConfig fmt n selfInclude ''config.txt'' = None"
proof
  show "replace_regex_copy fmt ''config.txt'' filenameParse (CHR ''/'' # ''other.txt'') = ''config.txt''"
    by (rule no_directory_same_path)
  show "loadConfig fmt n selfInclude ''config.txt'' = None"
    by (induction n) (simp_all add: selfInclude_step del: loadConfig.simps(2))
qed

subsection \<open>An include from a path with a directory\<close>

text \<open>
  When the path of the current file has a \<open>/\<close>, the expression \<open>/[^/]*$\<close> matches from the
  last one to the end, and the included name takes the place of the file name: the include
  is read from the directory of the current file. (The path and the included name are on
  one line; the included name has no \<open>$\<close> and no backslash, which the formatter would
  interpret.)
\<close>

lemma advance_0: "advance 0 m = m"
  by (cases m) (simp add: advance_def)

lemma advance_Suc:
  "rest m = c # cs \<Longrightarrow> advance (Suc i) m = advance i (m\<lparr>seen := c # seen m, rest := cs\<rparr>)"
  by (simp add: advance_def)

lemma star_k_longest:
  assumes body: "\<And>k' m. body k' m = (case rest m of [] \<Rightarrow> None
                  | c # cs \<Rightarrow> if p c then k' (m\<lparr>seen := c # seen m, rest := cs\<rparr>) else None)"
  shows "length (rest m) \<le> n \<Longrightarrow> k (advance (length (takeWhile p (rest m))) m) = Some r \<Longrightarrow>
         star_k n body k m = Some r"
proof (induction n arbitrary: m)
  case 0
  then show ?case by (simp add: advance_0)
next
  case (Suc n)
  show ?case
  proof (cases "rest m")
    case Nil
    have b: "body (star_k n body k) m = None" using Nil by (subst body) simp
    have "star_k (Suc n) body k m = k m" by (simp only: star_k.simps b option.case)
    with Suc.prems(2) Nil show ?thesis by (simp add: advance_0)
  next
    case (Cons c cs)
    show ?thesis
    proof (cases "p c")
      case True
      let ?m = "m\<lparr>seen := c # seen m, rest := cs\<rparr>"
      from Suc.prems(1) Cons have l: "length (rest ?m) \<le> n" by simp
      from Suc.prems(2) Cons True have "k (advance (length (takeWhile p (rest ?m))) ?m) = Some r"
        by (simp add: advance_Suc)
      from Suc.IH [OF l this] have e: "star_k n body k ?m = Some r" .
      have b: "body (star_k n body k) m = star_k n body k ?m"
        using Cons True by (subst body) simp
      show ?thesis by (simp only: star_k.simps b e option.case)
    next
      case False
      have b: "body (star_k n body k) m = None" using Cons False by (subst body) simp
      have "star_k (Suc n) body k m = k m" by (simp only: star_k.simps b option.case)
      with Suc.prems(2) Cons False show ?thesis by (simp add: advance_0)
    qed
  qed
qed

lemma star_k_none:
  assumes body: "\<And>k' m. body k' m = (case rest m of [] \<Rightarrow> None
                  | c # cs \<Rightarrow> if p c then k' (m\<lparr>seen := c # seen m, rest := cs\<rparr>) else None)"
  shows "(\<And>i. i \<le> length (takeWhile p (rest m)) \<Longrightarrow> k (advance i m) = None) \<Longrightarrow>
         star_k n body k m = None"
proof (induction n arbitrary: m)
  case 0
  from "0" [of 0] show ?case by (simp add: advance_0)
next
  case (Suc n)
  from Suc.prems [of 0] have k0: "k m = None" by (simp add: advance_0)
  show ?case
  proof (cases "rest m")
    case Nil
    have b: "body (star_k n body k) m = None" using Nil by (subst body) simp
    show ?thesis by (simp only: star_k.simps b option.case k0)
  next
    case (Cons c cs)
    show ?thesis
    proof (cases "p c")
      case True
      let ?m = "m\<lparr>seen := c # seen m, rest := cs\<rparr>"
      have "k (advance i ?m) = None" if "i \<le> length (takeWhile p (rest ?m))" for i
        using Suc.prems [of "Suc i"] that Cons True by (simp add: advance_Suc)
      from Suc.IH [OF this] have e: "star_k n body k ?m = None" by simp
      have b: "body (star_k n body k) m = star_k n body k ?m"
        using Cons True by (subst body) simp
      show ?thesis by (simp only: star_k.simps b e option.case k0)
    next
      case False
      have b: "body (star_k n body k) m = None" using Cons False by (subst body) simp
      show ?thesis by (simp only: star_k.simps b option.case k0)
    qed
  qed
qed

lemma mk_filenameParse:
  "mk filenameParse k m = (case rest m of [] \<Rightarrow> None
      | c # cs \<Rightarrow> if c = CHR ''/'' then
           star_k (length cs) (mk (Chr (\<lambda>c. c \<noteq> CHR ''/''))) (mk Eol k) (m\<lparr>seen := c # seen m, rest := cs\<rparr>)
         else None)"
  by (simp add: filenameParse_def Lit_def split: list.splits)

lemma filenameParse_last:
  assumes "CHR ''/'' \<notin> set base"
  shows "mk filenameParse Some \<lparr>seen = sn, rest = CHR ''/'' # base, caps = cp\<rparr>
         = Some \<lparr>seen = rev base @ CHR ''/'' # sn, rest = [], caps = cp\<rparr>"
proof -
  let ?m = "\<lparr>seen = CHR ''/'' # sn, rest = base, caps = cp\<rparr>"
  have tw: "takeWhile (\<lambda>c. c \<noteq> CHR ''/'') base = base"
    using assms by (auto simp: takeWhile_eq_all_conv)
  have "star_k (length base) (mk (Chr (\<lambda>c. c \<noteq> CHR ''/''))) (mk Eol Some) ?m
        = Some \<lparr>seen = rev base @ CHR ''/'' # sn, rest = [], caps = cp\<rparr>"
  proof (rule star_k_longest)
    have "advance (length (takeWhile (\<lambda>c. c \<noteq> CHR ''/'') (rest ?m))) ?m
          = \<lparr>seen = rev base @ CHR ''/'' # sn, rest = [], caps = cp\<rparr>"
      unfolding advance_def by (simp add: tw)
    then show "mk Eol Some (advance (length (takeWhile (\<lambda>c. c \<noteq> CHR ''/'') (rest ?m))) ?m)
          = Some \<lparr>seen = rev base @ CHR ''/'' # sn, rest = [], caps = cp\<rparr>"
      by (simp add: atEol_def)
  qed simp_all
  then show ?thesis by (simp add: mk_filenameParse)
qed

lemma filenameParse_inner:
  assumes "\<forall>c \<in> set rs. \<not> isLineBreak c" "CHR ''/'' \<in> set rs"
  shows "mk filenameParse Some \<lparr>seen = sn, rest = c # rs, caps = cp\<rparr> = None"
proof (cases "c = CHR ''/''")
  case False
  then show ?thesis by (simp add: mk_filenameParse)
next
  case True
  let ?m = "\<lparr>seen = c # sn, rest = rs, caps = cp\<rparr>"
  have "star_k (length rs) (mk (Chr (\<lambda>c. c \<noteq> CHR ''/''))) (mk Eol Some) ?m = None"
  proof (rule star_k_none)
    fix i assume i: "i \<le> length (takeWhile (\<lambda>c. c \<noteq> CHR ''/'') (rest ?m))"
    have "length (takeWhile (\<lambda>c. c \<noteq> CHR ''/'') rs) < length rs"
      using assms(2) by (induction rs) auto
    with i have "i < length rs" by simp
    then have "drop i rs \<noteq> []" "hd (drop i rs) \<in> set rs"
      by (simp_all add: hd_drop_conv_nth)
    with assms(1) show "mk Eol Some (advance i ?m) = None"
      by (cases "drop i rs") (auto simp: advance_def atEol_def)
  qed simp
  with True show ?thesis by (simp add: mk_filenameParse)
qed

lemma search_filenameParse:
  assumes "CHR ''/'' \<notin> set base" "\<forall>c \<in> set dir \<union> set base. \<not> isLineBreak c"
  shows "search filenameParse sn (dir @ CHR ''/'' # base)
         = Some (rev dir @ sn, \<lparr>seen = rev base @ CHR ''/'' # rev dir @ sn, rest = [], caps = (\<lambda>_. [])\<rparr>)"
  using assms(2)
proof (induction dir arbitrary: sn)
  case Nil
  show ?case by (simp add: filenameParse_last [OF assms(1)])
next
  case (Cons d dir)
  have "\<forall>c \<in> set (dir @ CHR ''/'' # base). \<not> isLineBreak c"
    using Cons.prems by (auto simp: isLineBreak_def)
  then have "mk filenameParse Some \<lparr>seen = sn, rest = d # dir @ CHR ''/'' # base, caps = (\<lambda>_. [])\<rparr> = None"
    by (intro filenameParse_inner) simp_all
  moreover have "search filenameParse (d # sn) (dir @ CHR ''/'' # base)
     = Some (rev dir @ d # sn, \<lparr>seen = rev base @ CHR ''/'' # rev dir @ d # sn, rest = [], caps = (\<lambda>_. [])\<rparr>)"
    using Cons.prems by (intro Cons.IH) simp
  ultimately show ?case by simp
qed

lemma directory_replaced:
  assumes "CHR ''/'' \<notin> set base" "\<forall>c \<in> set dir \<union> set base. \<not> isLineBreak c"
      and "list_all (\<lambda>c. c \<noteq> CHR ''$'' \<and> c \<noteq> CHR 0x5C) payload"
  shows "replace_regex_copy fmt (dir @ CHR ''/'' # base) filenameParse (CHR ''/'' # payload)
         = dir @ CHR ''/'' # payload"
  using assms(3)
  by (simp add: replace_regex_copy_def search_filenameParse [OF assms(1,2)] regex_format_def)

section \<open>The bound on the depth of the includes\<close>

text \<open>A load that returns with one bound returns the same with every larger bound.\<close>

lemma loadLine_mono:
  assumes "\<And>p r. load p = Some r \<Longrightarrow> load' p = Some r"
      and "loadLine load fmt filename lineNum line st = Some r"
  shows "loadLine load' fmt filename lineNum line st = Some r"
proof (cases "\<not> isAllWhitespace line \<and> regex_match includeParse line \<noteq> None")
  case False
  with assms(2) show ?thesis
    by (auto simp: loadLine_def split: prod.splits option.splits)
next
  case True
  then obtain pr where pr: "regex_match includeParse line = Some pr" by auto
  let ?nf = "replace_regex_copy fmt filename filenameParse (CHR ''/'' # caps pr 1)"
  from assms(2) True pr obtain a where a: "load ?nf = Some a"
    by (cases "load ?nf") (auto simp: loadLine_def Let_def split: prod.splits)
  from assms(1) [OF a] a assms(2) True pr show ?thesis
    by (simp add: loadLine_def Let_def split: prod.splits)
qed

lemma loadLines_mono:
  assumes "\<And>p r. load p = Some r \<Longrightarrow> load' p = Some r"
  shows "loadLines load fmt filename lineNum lines st = Some r \<Longrightarrow>
         loadLines load' fmt filename lineNum lines st = Some r"
proof (induction lines arbitrary: lineNum st)
  case Nil
  then show ?case by simp
next
  case (Cons line lines)
  from Cons.prems obtain a where a: "loadLine load fmt filename lineNum line st = Some a"
    by (cases "loadLine load fmt filename lineNum line st") auto
  note a' = loadLine_mono [of load load', OF assms a]
  show ?case
  proof (cases a)
    case (Inl e)
    with Cons.prems a a' show ?thesis by auto
  next
    case (Inr st')
    with Cons.prems a a' Cons.IH [of "Suc lineNum" st'] show ?thesis by auto
  qed
qed

lemma loadConfig_Suc:
  "loadConfig fmt n fs filename = Some r \<Longrightarrow> loadConfig fmt (Suc n) fs filename = Some r"
proof (induction n arbitrary: filename r)
  case 0
  then show ?case by simp
next
  case (Suc n)
  show ?case
  proof (cases "fs filename")
    case None
    with Suc.prems show ?thesis by simp
  next
    case (Some lines)
    with Suc.prems have "loadLines (loadConfig fmt n fs) fmt filename 1 lines ([], []) = Some r"
      by simp
    from loadLines_mono [of "loadConfig fmt n fs" "loadConfig fmt (Suc n) fs", OF Suc.IH this] Some
    show ?thesis by (simp del: loadConfig.simps add: loadConfig.simps(2) [of fmt "Suc n"])
  qed
qed

lemma loadConfig_mono:
  "loadConfig fmt n fs filename = Some r \<Longrightarrow> n \<le> k \<Longrightarrow> loadConfig fmt k fs filename = Some r"
  by (induction k) (auto simp: le_Suc_eq loadConfig_Suc simp del: loadConfig.simps)

section \<open>The extraction of a float\<close>

text \<open>
  Some texts and what the extraction makes of them: \<open>0.1\<close> is rounded to
  \<open>13421773 * 2^-27\<close>; the largest float is \<open>16777215 * 2^104\<close>, and \<open>1e39\<close> is beyond it, so
  the extraction fails; \<open>1e-50\<close> is rounded to zero and is not an error; a text after the
  number leaves the stream before its end.
\<close>

lemma extractFloat_examples:
  "extractFloat ''0.1'' = \<lparr>stored = Some (False, 13421773, - 27), eof = True, fail = False\<rparr>"
  "extractFloat ''-1.5'' = \<lparr>stored = Some (True, 12582912, - 23), eof = True, fail = False\<rparr>"
  "extractFloat ''3.4028235e38'' = \<lparr>stored = Some (False, 16777215, 104), eof = True, fail = False\<rparr>"
  "extractFloat ''1e39'' = \<lparr>stored = Some (False, 16777215, 104), eof = True, fail = True\<rparr>"
  "extractFloat ''-1e39'' = \<lparr>stored = Some (True, 16777215, 104), eof = True, fail = True\<rparr>"
  "extractFloat ''1e-50'' = \<lparr>stored = Some (False, 0, 0), eof = True, fail = False\<rparr>"
  "extractFloat ''1.5x'' = \<lparr>stored = Some (False, 12582912, - 23), eof = False, fail = False\<rparr>"
  "extractFloat ''1e'' = \<lparr>stored = Some (False, 0, 0), eof = True, fail = True\<rparr>"
  by code_simp+

section \<open>The type name of a parsed value\<close>

lemma store_type: "type (store f x v) = type v"
  by (simp add: store_def split: option.splits)

lemma check_type:
  "type (check v a b c d) = (if (a \<and> (\<not> b \<or> c)) \<or> d then ''invalid syntax'' else type v)"
  by (auto simp: check_def)

lemma parseValue_unknown:
  "ty \<notin> set typeNames \<Longrightarrow> parseValue ty valueText = \<lparr>type = ''invalid type name'', un = Indeterminate\<rparr>"
  unfolding parseValue_def Let_def by (simp add: typeNames_def)

lemma parseValue_int:
  "type (parseValue ''int'' valueText) = ''int'' \<or> type (parseValue ''int'' valueText) = ''invalid syntax''"
  unfolding parseValue_def Let_def
  by (simp add: check_type store_type split: prod.splits)

lemma parseValue_hex:
  "type (parseValue ''hex'' valueText) = ''int'' \<or> type (parseValue ''hex'' valueText) = ''invalid syntax''"
  unfolding parseValue_def Let_def
  by (simp add: check_type store_type split: prod.splits)

lemma parseValue_octal:
  "type (parseValue ''octal'' valueText) = ''int'' \<or> type (parseValue ''octal'' valueText) = ''invalid syntax''"
  unfolding parseValue_def Let_def
  by (simp add: check_type store_type split: prod.splits)

lemma parseValue_float:
  "type (parseValue ''float'' valueText) = ''float'' \<or> type (parseValue ''float'' valueText) = ''invalid syntax''"
  unfolding parseValue_def Let_def
  by (simp add: check_type store_type split: prod.splits)

lemma parseValue_bool:
  "type (parseValue ''bool'' valueText) = ''bool'' \<or> type (parseValue ''bool'' valueText) = ''invalid syntax''"
  unfolding parseValue_def Let_def
  by (simp add: check_type store_type split: prod.splits)

lemma parseValue_boolean:
  "type (parseValue ''boolean'' valueText) = ''bool'' \<or> type (parseValue ''boolean'' valueText) = ''invalid syntax''"
  unfolding parseValue_def Let_def
  by (simp add: check_type store_type split: prod.splits)

lemma parseValue_char:
  "type (parseValue ''char'' valueText) = ''char'' \<or> type (parseValue ''char'' valueText) = ''invalid syntax''"
  unfolding parseValue_def Let_def
  by (simp add: check_type store_type split: prod.splits)

lemma parseValue_string:
  "type (parseValue ''string'' valueText) = ''string'' \<or> type (parseValue ''string'' valueText) = ''invalid syntax''"
  unfolding parseValue_def Let_def
  by (simp add: check_type store_type split: prod.splits)

lemma parseValue_type:
  "type (parseValue ty valueText) = ''invalid type name''
   \<or> type (parseValue ty valueText) = ''invalid syntax''
   \<or> (type (parseValue ty valueText) = canonical ty \<and> canonical ty \<in> set realKinds)"
proof (cases "ty \<in> set typeNames")
  case False
  then show ?thesis by (simp add: parseValue_unknown)
next
  case True
  then have "ty = ''int'' \<or> ty = ''hex'' \<or> ty = ''octal'' \<or> ty = ''float''
    \<or> ty = ''bool'' \<or> ty = ''boolean'' \<or> ty = ''char'' \<or> ty = ''string''"
    by (simp add: typeNames_def)
  then show ?thesis
  proof (elim disjE)
    assume "ty = ''int''"
    with parseValue_int [of valueText] show ?thesis by (auto simp: canonical_def realKinds_def)
  next
    assume "ty = ''hex''"
    with parseValue_hex [of valueText] show ?thesis by (auto simp: canonical_def realKinds_def)
  next
    assume "ty = ''octal''"
    with parseValue_octal [of valueText] show ?thesis by (auto simp: canonical_def realKinds_def)
  next
    assume "ty = ''float''"
    with parseValue_float [of valueText] show ?thesis by (auto simp: canonical_def realKinds_def)
  next
    assume "ty = ''bool''"
    with parseValue_bool [of valueText] show ?thesis by (auto simp: canonical_def realKinds_def)
  next
    assume "ty = ''boolean''"
    with parseValue_boolean [of valueText] show ?thesis by (auto simp: canonical_def realKinds_def)
  next
    assume "ty = ''char''"
    with parseValue_char [of valueText] show ?thesis by (auto simp: canonical_def realKinds_def)
  next
    assume "ty = ''string''"
    with parseValue_string [of valueText] show ?thesis by (auto simp: canonical_def realKinds_def)
  qed
qed

lemma parseValue_alias:
  assumes "ty = ''hex'' \<or> ty = ''octal'' \<or> ty = ''boolean''"
  shows "type (parseValue ty valueText) = canonical ty \<or> type (parseValue ty valueText) = ''invalid syntax''"
  using assms parseValue_hex [of valueText] parseValue_octal [of valueText] parseValue_boolean [of valueText]
  by (auto simp: canonical_def)

subsection \<open>The texts that are not accepted\<close>

text \<open>
  The type name of the result of \<open>parseValue\<close>, for every type name and every text:
  \<open>invalid type name\<close> for a type name that is not known, \<open>invalid syntax\<close> for a text
  that is not accepted, and the stored type name otherwise.
\<close>

lemma sscanf_count: "0 < n \<Longrightarrow> n \<le> fst (sscanf s ds n out)"
  by (induction s ds n out rule: sscanf.induct) auto

lemma sscanf_percent_c: "fst (sscanf s [PercentC] 0 []) < 1 \<longleftrightarrow> s = []"
  by (cases s) simp_all

lemma sscanf_scanset: "fst (sscanf s [Scanset p] 0 []) < 1 \<longleftrightarrow> (case s of [] \<Rightarrow> True | c # _ \<Rightarrow> \<not> p c)"
  by (cases s) simp_all

lemma sscanf_quoted:
  "fst (sscanf s [Ord q, Scanset p, Ord q] 0 []) < 1 \<longleftrightarrow>
     (case s of [] \<Rightarrow> True | c # cs \<Rightarrow> c \<noteq> q \<or> (case cs of [] \<Rightarrow> True | d # _ \<Rightarrow> \<not> p d))"
proof (cases s)
  case Nil
  then show ?thesis by simp
next
  case s: (Cons c cs)
  show ?thesis
  proof (cases cs)
    case Nil
    with s show ?thesis by simp
  next
    case (Cons d ds)
    have "1 \<le> fst (sscanf (dropWhile p (d # ds)) [Ord q] 1 (takeWhile p (d # ds)))"
      by (rule sscanf_count) simp
    then have "\<not> fst (sscanf (dropWhile p (d # ds)) [Ord q] 1 (takeWhile p (d # ds))) < 1"
      by simp
    with s Cons show ?thesis by (simp del: dropWhile.simps takeWhile.simps)
  qed
qed

lemma sscanf_quoted_char:
  "fst (sscanf s [Ord q, PercentC, Ord q] 0 []) < 1 \<longleftrightarrow>
     (case s of [] \<Rightarrow> True | c # cs \<Rightarrow> c \<noteq> q \<or> cs = [])"
proof (cases s)
  case Nil
  then show ?thesis by simp
next
  case s: (Cons c cs)
  show ?thesis
  proof (cases cs)
    case Nil
    with s show ?thesis by simp
  next
    case (Cons d ds)
    have "1 \<le> fst (sscanf ds [Ord q] 1 [d])"
      by (rule sscanf_count) simp
    then have "\<not> fst (sscanf ds [Ord q] 1 [d]) < 1" by simp
    with s Cons show ?thesis by simp
  qed
qed

lemma parseValue_kind_int:
  "type (parseValue ''int'' t) = (if rejected ''int'' t then ''invalid syntax'' else ''int'')"
  unfolding parseValue_def Let_def rejected_def
  by (simp add: check_type store_type)

lemma parseValue_kind_hex:
  "type (parseValue ''hex'' t) = (if rejected ''hex'' t then ''invalid syntax'' else ''int'')"
  unfolding parseValue_def Let_def rejected_def
  by (simp add: check_type store_type)

lemma parseValue_kind_octal:
  "type (parseValue ''octal'' t) = (if rejected ''octal'' t then ''invalid syntax'' else ''int'')"
  unfolding parseValue_def Let_def rejected_def
  by (simp add: check_type store_type)

lemma parseValue_kind_float:
  "type (parseValue ''float'' t) = (if rejected ''float'' t then ''invalid syntax'' else ''float'')"
  unfolding parseValue_def Let_def rejected_def
  by (simp add: check_type store_type)

lemma parseValue_kind_bool:
  "type (parseValue ''bool'' t) = (if rejected ''bool'' t then ''invalid syntax'' else ''bool'')"
  unfolding parseValue_def Let_def rejected_def
  by (simp add: check_type store_type)

lemma parseValue_kind_boolean:
  "type (parseValue ''boolean'' t) = (if rejected ''boolean'' t then ''invalid syntax'' else ''bool'')"
  unfolding parseValue_def Let_def rejected_def
  by (simp add: check_type store_type)

lemma parseValue_kind_char:
  "type (parseValue ''char'' t) = (if rejected ''char'' t then ''invalid syntax'' else ''char'')"
proof -
  have "type (parseValue ''char'' t) =
      (if fst (sscanf (c_str t) [Ord (CHR 0x27), PercentC, Ord (CHR 0x27)] 0 []) < 1
          \<and> fst (sscanf (c_str t) [PercentC] 0 []) < 1
       then ''invalid syntax'' else ''char'')"
    unfolding parseValue_def Let_def
    by (simp add: check_type store_type case_prod_beta del: sscanf.simps)
  then show ?thesis
    unfolding sscanf_percent_c sscanf_quoted_char rejected_def
    by (auto split: list.splits)
qed

lemma parseValue_kind_string:
  "type (parseValue ''string'' t) = (if rejected ''string'' t then ''invalid syntax'' else ''string'')"
proof -
  have "type (parseValue ''string'' t) =
      (if fst (sscanf (c_str t) [Ord (CHR 0x22), Scanset (\<lambda>c. c \<noteq> CHR 0x22), Ord (CHR 0x22)] 0 []) < 1
          \<and> fst (sscanf (c_str t) [Scanset (\<lambda>c. c \<noteq> CHR 0x22)] 0 []) < 1
       then ''invalid syntax'' else ''string'')"
    unfolding parseValue_def Let_def
    by (simp add: check_type store_type case_prod_beta del: sscanf.simps)
  then show ?thesis
    unfolding sscanf_scanset sscanf_quoted rejected_def
    by (auto split: list.splits)
qed

lemma parseValue_kind:
  "type (parseValue ty t) =
     (if ty \<notin> set typeNames then ''invalid type name''
      else if rejected ty t then ''invalid syntax'' else canonical ty)"
proof (cases "ty \<in> set typeNames")
  case False
  then show ?thesis by (simp add: parseValue_unknown)
next
  case True
  then have "ty = ''int'' \<or> ty = ''hex'' \<or> ty = ''octal'' \<or> ty = ''float''
    \<or> ty = ''bool'' \<or> ty = ''boolean'' \<or> ty = ''char'' \<or> ty = ''string''"
    by (simp add: typeNames_def)
  then show ?thesis
  proof (elim disjE)
    assume "ty = ''int''"
    with True parseValue_kind_int [of t] show ?thesis by (simp add: canonical_def)
  next
    assume "ty = ''hex''"
    with True parseValue_kind_hex [of t] show ?thesis by (simp add: canonical_def)
  next
    assume "ty = ''octal''"
    with True parseValue_kind_octal [of t] show ?thesis by (simp add: canonical_def)
  next
    assume "ty = ''float''"
    with True parseValue_kind_float [of t] show ?thesis by (simp add: canonical_def)
  next
    assume "ty = ''bool''"
    with True parseValue_kind_bool [of t] show ?thesis by (simp add: canonical_def)
  next
    assume "ty = ''boolean''"
    with True parseValue_kind_boolean [of t] show ?thesis by (simp add: canonical_def)
  next
    assume "ty = ''char''"
    with True parseValue_kind_char [of t] show ?thesis by (simp add: canonical_def)
  next
    assume "ty = ''string''"
    with True parseValue_kind_string [of t] show ?thesis by (simp add: canonical_def)
  qed
qed

lemma canonical_real: "ty \<in> set typeNames \<Longrightarrow> canonical ty \<in> set realKinds"
  by (auto simp: typeNames_def canonical_def realKinds_def)

lemma real_not_error:
  "k \<in> set realKinds \<Longrightarrow> k \<noteq> ''invalid type name'' \<and> k \<noteq> ''invalid syntax''"
  by (auto simp: realKinds_def)

section \<open>Tables keep real type names and unique keys\<close>

lemma realTable_update:
  "realTable t \<Longrightarrow> type v \<in> set realKinds \<Longrightarrow> realTable (AList.update k v t)"
  by (induction t) (auto simp: realTable_def)

lemma mergeInclude_real:
  "realTable t \<Longrightarrow> realTable result \<Longrightarrow> realTable (fst (mergeInclude fn t (result, w)))"
proof (induction t arbitrary: result w)
  case Nil
  then show ?case by simp
next
  case (Cons e t)
  obtain k v where e: "e = (k, v)" by (cases e)
  from Cons.prems have "type v \<in> set realKinds" "realTable t"
    by (simp_all add: realTable_def e)
  with Cons.prems Cons.IH show ?case
    by (simp add: e realTable_update)
qed

lemma mergeConfigTables_real:
  "realTable c1 \<Longrightarrow> realTable c2 \<Longrightarrow> realTable (mergeConfigTables c1 c2)"
proof (induction c2 arbitrary: c1)
  case Nil
  then show ?case by simp
next
  case (Cons e c2)
  obtain k v where e: "e = (k, v)" by (cases e)
  from Cons.prems have "type v \<in> set realKinds" "realTable c2"
    by (simp_all add: realTable_def e)
  with Cons.prems Cons.IH show ?case
    by (simp add: e realTable_update)
qed

lemma wellFormed_update:
  "wellFormed t \<Longrightarrow> type v \<in> set realKinds \<Longrightarrow> wellFormed (AList.update k v t)"
  by (simp add: wellFormed_def realTable_update distinct_update)

lemma wellFormed_Cons:
  "wellFormed ((k, v) # t) \<Longrightarrow> type v \<in> set realKinds \<and> wellFormed t \<and> map_of t k = None"
  by (auto simp: wellFormed_def realTable_def map_of_eq_None_iff)

lemma mergeInclude_wellFormed:
  "wellFormed t \<Longrightarrow> wellFormed result \<Longrightarrow> wellFormed (fst (mergeInclude fn t (result, w)))"
proof (induction t arbitrary: result w)
  case Nil
  then show ?case by simp
next
  case (Cons e t)
  obtain k v where e: "e = (k, v)" by (cases e)
  from Cons.prems(1) have "type v \<in> set realKinds" "wellFormed t"
    using wellFormed_Cons [of k v t] by (simp_all add: e)
  with Cons.prems Cons.IH show ?case
    by (simp add: e wellFormed_update)
qed

lemma mergeInclude_map_of:
  "distinct (map fst t) \<Longrightarrow>
     map_of (fst (mergeInclude fn t (result, w))) = map_of result ++ map_of t"
proof (induction t arbitrary: result w)
  case Nil
  then show ?case by simp
next
  case (Cons e t)
  obtain k v where e: "e = (k, v)" by (cases e)
  from Cons.prems have k: "k \<notin> dom (map_of t)" and d: "distinct (map fst t)"
    by (auto simp: e dom_map_of_conv_image_fst)
  have "map_of (fst (mergeInclude fn (e # t) (result, w)))
          = (map_of result)(k \<mapsto> v) ++ map_of t"
    using Cons.IH [OF d] by (simp add: e update_conv' fun_upd_def)
  also have "\<dots> = map_of result ++ map_of (e # t)"
    using k by (auto simp: e map_add_def fun_eq_iff split: option.splits)
  finally show ?case .
qed

lemma mergeConfigTables_wellFormed:
  "wellFormed c1 \<Longrightarrow> wellFormed c2 \<Longrightarrow> wellFormed (mergeConfigTables c1 c2)"
proof (induction c2 arbitrary: c1)
  case Nil
  then show ?case by simp
next
  case (Cons e c2)
  obtain k v where e: "e = (k, v)" by (cases e)
  from Cons.prems(2) have "type v \<in> set realKinds" "wellFormed c2"
    using wellFormed_Cons [of k v c2] by (simp_all add: e)
  with Cons.prems Cons.IH show ?case
    by (simp add: e wellFormed_update)
qed

lemma mergeConfigTables_map_of:
  "distinct (map fst c2) \<Longrightarrow> map_of (mergeConfigTables c1 c2) = map_of c1 ++ map_of c2"
proof (induction c2 arbitrary: c1)
  case Nil
  then show ?case by simp
next
  case (Cons e c2)
  obtain k v where e: "e = (k, v)" by (cases e)
  from Cons.prems have k: "k \<notin> dom (map_of c2)" and d: "distinct (map fst c2)"
    by (auto simp: e dom_map_of_conv_image_fst)
  have "map_of (mergeConfigTables c1 (e # c2)) = (map_of c1)(k \<mapsto> v) ++ map_of c2"
    using Cons.IH [OF d] by (simp add: e update_conv' fun_upd_def)
  also have "\<dots> = map_of c1 ++ map_of (e # c2)"
    using k by (auto simp: e map_add_def fun_eq_iff split: option.splits)
  finally show ?case .
qed

lemma loadLine_wellFormed:
  assumes load: "\<And>p t w. load p = Some (Inr (t, w)) \<Longrightarrow> wellFormed t"
      and wf: "wellFormed result"
      and step: "loadLine load fmt filename lineNum line (result, w) = Some (Inr (result', w'))"
  shows "wellFormed result'"
proof (cases "isAllWhitespace line")
  case True
  with step wf show ?thesis by (simp add: loadLine_def)
next
  case blank: False
  show ?thesis
  proof (cases "regex_match includeParse line")
    case (Some pr)
    let ?nf = "replace_regex_copy fmt filename filenameParse (CHR ''/'' # caps pr 1)"
    from step blank Some obtain t wt where t: "load ?nf = Some (Inr (t, wt))"
      and r: "mergeInclude ?nf t (result, w @ wt) = (result', w')"
      by (auto simp: loadLine_def Let_def split: option.splits sum.splits)
    from mergeInclude_wellFormed [OF load [OF t] wf, of ?nf "w @ wt"] r show ?thesis by simp
  next
    case None
    with step blank obtain pr where pr: "regex_match lineParse line = Some pr"
      by (auto simp: loadLine_def split: option.splits)
    let ?v = "parseValue (caps pr 1) (trim_left (caps pr 3))"
    from step blank None pr have ok: "type ?v \<noteq> ''invalid type name''" "type ?v \<noteq> ''invalid syntax''"
      and r: "result' = AList.update (caps pr 2) (?v\<lparr>type := canonical (caps pr 1)\<rparr>) result"
      by (auto simp: loadLine_def Let_def split: if_splits)
    from ok parseValue_type [of "caps pr 1" "trim_left (caps pr 3)"]
    have "canonical (caps pr 1) \<in> set realKinds" by auto
    with wf r show ?thesis by (simp add: wellFormed_update)
  qed
qed

lemma loadLine_map_of:
  assumes load: "\<And>p t w. load p = Some (Inr (t, w)) \<Longrightarrow> wellFormed t"
      and step: "loadLine load fmt filename lineNum line (result, w) = Some (Inr (result', w'))"
  shows "map_of result' name =
           (case lineBinding load fmt filename line name of
              None \<Rightarrow> map_of result name | Some v \<Rightarrow> Some v)"
proof (cases "isAllWhitespace line")
  case True
  with step show ?thesis by (simp add: loadLine_def lineBinding_def)
next
  case blank: False
  show ?thesis
  proof (cases "regex_match includeParse line")
    case (Some pr)
    let ?nf = "replace_regex_copy fmt filename filenameParse (CHR ''/'' # caps pr 1)"
    from step blank Some obtain t wt where t: "load ?nf = Some (Inr (t, wt))"
      and r: "mergeInclude ?nf t (result, w @ wt) = (result', w')"
      by (auto simp: loadLine_def Let_def split: option.splits sum.splits)
    from load [OF t] have "distinct (map fst t)" by (simp add: wellFormed_def)
    from mergeInclude_map_of [OF this, of ?nf result "w @ wt"] r
    have "map_of result' = map_of result ++ map_of t" by simp
    with blank Some t show ?thesis
      by (simp add: lineBinding_def map_add_def split: option.splits)
  next
    case None
    with step blank obtain pr where pr: "regex_match lineParse line = Some pr"
      by (auto simp: loadLine_def split: option.splits)
    let ?v = "parseValue (caps pr 1) (trim_left (caps pr 3))"
    from step blank None pr
    have r: "result' = AList.update (caps pr 2) (?v\<lparr>type := canonical (caps pr 1)\<rparr>) result"
      by (auto simp: loadLine_def Let_def split: if_splits)
    with blank None pr show ?thesis
      by (simp add: lineBinding_def update_conv')
  qed
qed

lemma loadLines_invariant:
  assumes load: "\<And>p t w. load p = Some (Inr (t, w)) \<Longrightarrow> wellFormed t"
  shows "wellFormed result \<Longrightarrow>
         loadLines load fmt filename lineNum lines (result, w) = Some (Inr (result', w')) \<Longrightarrow>
         wellFormed result'
         \<and> map_of result' name = lastBinding load fmt filename name (map_of result name) lines"
proof (induction lines arbitrary: lineNum result w)
  case Nil
  then show ?case by (simp add: lastBinding_def)
next
  case (Cons line lines)
  from Cons.prems(2) obtain r1 w1 where
    s1: "loadLine load fmt filename lineNum line (result, w) = Some (Inr (r1, w1))"
    and s2: "loadLines load fmt filename (Suc lineNum) lines (r1, w1) = Some (Inr (result', w'))"
    by (auto split: option.splits sum.splits)
  have wf1: "wellFormed r1"
    using loadLine_wellFormed [OF load Cons.prems(1) s1] .
  have m1: "map_of r1 name =
      (case lineBinding load fmt filename line name of None \<Rightarrow> map_of result name | Some v \<Rightarrow> Some v)"
    using loadLine_map_of [OF load s1] .
  from Cons.IH [OF wf1 s2] m1 show ?case
    by (simp add: lastBinding_def)
qed

lemma loadConfig_wellFormed:
  "loadConfig fmt n fs filename = Some (Inr (t, w)) \<Longrightarrow> wellFormed t"
proof (induction n arbitrary: filename t w)
  case 0
  then show ?case by simp
next
  case (Suc n)
  from Suc.prems obtain lines where
    l: "loadLines (loadConfig fmt n fs) fmt filename 1 lines ([], []) = Some (Inr (t, w))"
    by (auto split: option.splits)
  have e: "wellFormed []" by (simp add: wellFormed_def realTable_def)
  from loadLines_invariant [of "loadConfig fmt n fs", OF Suc.IH e l] show ?case by simp
qed

lemma loadConfig_real:
  "loadConfig fmt n fs filename = Some (Inr (t, w)) \<Longrightarrow> realTable t"
  using loadConfig_wellFormed [of fmt n fs filename t w] by (simp add: wellFormed_def)

lemma initArgs_real:
  "realStatics S \<Longrightarrow> initArgs fmt n fs args S = Some (Inr S') \<Longrightarrow> realStatics S'"
proof (induction fmt n fs args S rule: initArgs.induct)
  case (1 fmt n fs S)
  then show ?case by simp
next
  case (2 fmt n fs a as S)
  show ?case
  proof (cases "a = ''--use-config'' \<and> as \<noteq> []")
    case True
    with "2.prems" "2.IH"(1) show ?thesis by (simp add: realStatics_def)
  next
    case nuse: False
    show ?thesis
    proof (cases "a = ''--add-config'' \<and> as \<noteq> []")
      case True
      with nuse "2.prems"(2) obtain t w where
        l: "loadConfig fmt n fs (hd as) = Some (Inr (t, w))"
        and r: "initArgs fmt n fs (tl as)
                  (S\<lparr>userDefs := mergeConfigTables t (userDefs S), cerr := cerr S @ w\<rparr>) = Some (Inr S')"
        by (auto split: option.splits sum.splits)
      have "realStatics (S\<lparr>userDefs := mergeConfigTables t (userDefs S), cerr := cerr S @ w\<rparr>)"
        using "2.prems"(1) loadConfig_real [OF l]
        by (simp add: realStatics_def mergeConfigTables_real)
      from "2.IH"(2) [OF nuse True l refl refl this r] show ?thesis .
    next
      case nadd: False
      show ?thesis
      proof (cases "take 2 a = ''-D''")
        case True
        let ?v = "parseValue (hd as) (hd (tl as))"
        from nuse nadd True "2.prems"(2)
        have as: "as \<noteq> []" "tl as \<noteq> []"
          and ok: "type ?v \<noteq> ''invalid type name''" "type ?v \<noteq> ''invalid syntax''"
          and r: "initArgs fmt n fs (tl (tl as))
                    (S\<lparr>userDefs := AList.update (drop 2 a) ?v (userDefs S)\<rparr>) = Some (Inr S')"
          by (auto simp: Let_def split: if_splits)
        from ok parseValue_type [of "hd as" "hd (tl as)"] have "type ?v \<in> set realKinds" by auto
        with "2.prems"(1)
        have "realStatics (S\<lparr>userDefs := AList.update (drop 2 a) ?v (userDefs S)\<rparr>)"
          by (simp add: realStatics_def realTable_update)
        from "2.IH"(3) [OF nuse nadd True refl as(1) as(2) refl refl refl ok this r] show ?thesis .
      next
        case False
        from "2.prems"(2) have "initArgs fmt n fs as S = Some (Inr S')"
          by (simp add: nuse nadd False)
        from "2.IH"(4) [OF nuse nadd False "2.prems"(1) this] show ?thesis .
      qed
    qed
  qed
qed

section \<open>The table does not depend on the warnings\<close>

lemma mergeInclude_fst_indep:
  "fst (mergeInclude fn t (r, w1)) = fst (mergeInclude fn t (r, w2))"
  by (induction t arbitrary: r w1 w2) auto

lemma loadLine_tableOf:
  "tableOf (loadLine load fmt filename lineNum line (r, w1))
     = tableOf (loadLine load fmt filename lineNum line (r, w2))"
  using mergeInclude_fst_indep
  by (auto simp: loadLine_def tableOf_def Let_def split: option.splits sum.splits)

lemma tableOf_cases:
  "tableOf a = tableOf b \<Longrightarrow>
     (a = None \<and> b = None) \<or> (\<exists>e. a = Some (Inl e) \<and> b = Some (Inl e))
     \<or> (\<exists>r wa wb. a = Some (Inr (r, wa)) \<and> b = Some (Inr (r, wb)))"
  by (cases a; cases b) (auto simp: tableOf_def map_sum_def split: sum.splits)

lemma loadLines_tableOf:
  "tableOf (loadLines load fmt filename lineNum lines (r, w1))
     = tableOf (loadLines load fmt filename lineNum lines (r, w2))"
proof (induction lines arbitrary: lineNum r w1 w2)
  case Nil
  then show ?case by (simp add: tableOf_def)
next
  case (Cons line lines)
  from tableOf_cases [OF loadLine_tableOf [of load fmt filename lineNum line r w1 w2]]
  show ?case
  proof (elim disjE exE conjE)
    fix r' wa wb
    assume "loadLine load fmt filename lineNum line (r, w1) = Some (Inr (r', wa))"
       and "loadLine load fmt filename lineNum line (r, w2) = Some (Inr (r', wb))"
    with Cons.IH [of "Suc lineNum" r' wa wb] show ?thesis by simp
  qed (simp_all add: tableOf_def)
qed

section \<open>The lines of a file\<close>

text \<open>
  What the loop body does with a line depends on the kind of the line only, and whether it
  goes past the line does not depend on the table so far. A load returns a table exactly
  when the loop goes past every line; the first line it does not go past ends the load.
\<close>

lemma loadLine_classify:
  "loadLine load fmt filename lineNum line (result, w) =
     (case classify line of
        Blank \<Rightarrow> Some (Inr (result, w))
      | Include p \<Rightarrow>
          (case load (replace_regex_copy fmt filename filenameParse (CHR ''/'' # p)) of
             None \<Rightarrow> None
           | Some (Inl e) \<Rightarrow> Some (Inl e)
           | Some (Inr (t, w')) \<Rightarrow>
               Some (Inr (mergeInclude (replace_regex_copy fmt filename filenameParse (CHR ''/'' # p)) t
                            (result, w @ w'))))
      | Assignment ty name valueText \<Rightarrow>
          if ty \<notin> set typeNames then Some (Inl (InvalidTypeName filename lineNum ty))
          else if rejected ty valueText then Some (Inl (InvalidValueFormat filename lineNum))
          else Some (Inr (AList.update name (parseValue ty valueText\<lparr>type := canonical ty\<rparr>) result,
                          if map_of result name \<noteq> None then w @ [Rebound filename lineNum name] else w))
      | Malformed \<Rightarrow> Some (Inl (UnexpectedEndOfLine filename lineNum)))"
proof (cases "classify line")
  case Blank
  then show ?thesis
    by (auto simp: classify_def loadLine_def split: if_splits option.splits)
next
  case (Include p)
  then show ?thesis
    by (auto simp: classify_def loadLine_def Let_def split: if_splits option.splits sum.splits)
next
  case (Assignment ty name valueText)
  then obtain pr where pr: "\<not> isAllWhitespace line" "regex_match includeParse line = None"
      "regex_match lineParse line = Some pr" "caps pr 1 = ty" "caps pr 2 = name"
      "trim_left (caps pr 3) = valueText"
    by (auto simp: classify_def split: if_splits option.splits)
  have k: "type (parseValue ty valueText) =
     (if ty \<notin> set typeNames then ''invalid type name''
      else if rejected ty valueText then ''invalid syntax'' else canonical ty)"
    by (rule parseValue_kind)
  have c: "canonical ty \<noteq> ''invalid type name''" "canonical ty \<noteq> ''invalid syntax''"
    if "ty \<in> set typeNames"
    using canonical_real [OF that] real_not_error by blast+
  have "loadLine load fmt filename lineNum line (result, w) =
      (if type (parseValue ty valueText) = ''invalid type name''
       then Some (Inl (InvalidTypeName filename lineNum ty))
       else if type (parseValue ty valueText) = ''invalid syntax''
       then Some (Inl (InvalidValueFormat filename lineNum))
       else Some (Inr (AList.update name (parseValue ty valueText\<lparr>type := canonical ty\<rparr>) result,
                       if map_of result name \<noteq> None then w @ [Rebound filename lineNum name] else w)))"
    unfolding loadLine_def Let_def using pr by simp
  also have "\<dots> = (if ty \<notin> set typeNames then Some (Inl (InvalidTypeName filename lineNum ty))
          else if rejected ty valueText then Some (Inl (InvalidValueFormat filename lineNum))
          else Some (Inr (AList.update name (parseValue ty valueText\<lparr>type := canonical ty\<rparr>) result,
                          if map_of result name \<noteq> None then w @ [Rebound filename lineNum name] else w)))"
    unfolding k using c by auto
  finally show ?thesis using Assignment by simp
next
  case Malformed
  then show ?thesis
    by (auto simp: classify_def loadLine_def split: if_splits option.splits)
qed

lemma loadLine_table_iff:
  "(\<exists>st'. loadLine load fmt filename lineNum line st = Some (Inr st'))
     \<longleftrightarrow> lineLoads load fmt filename line"
proof -
  obtain result w where st: "st = (result, w)" by (cases st)
  show ?thesis
    unfolding st loadLine_classify lineLoads_def
    by (auto split: lineKind.splits option.splits sum.splits)
qed

lemma loadLines_table_iff:
  "(\<exists>st'. loadLines load fmt filename lineNum lines st = Some (Inr st'))
     \<longleftrightarrow> list_all (lineLoads load fmt filename) lines"
proof (induction lines arbitrary: lineNum st)
  case Nil
  show ?case by simp
next
  case (Cons line lines)
  show ?case
  proof (cases "lineLoads load fmt filename line")
    case True
    then obtain st1 where s: "loadLine load fmt filename lineNum line st = Some (Inr st1)"
      using loadLine_table_iff [of load fmt filename lineNum line st] by blast
    with True Cons.IH [of "Suc lineNum" st1] show ?thesis by simp
  next
    case False
    then have "\<And>st'. loadLine load fmt filename lineNum line st \<noteq> Some (Inr st')"
      using loadLine_table_iff [of load fmt filename lineNum line st] by blast
    with False show ?thesis by (auto split: option.splits sum.splits)
  qed
qed

lemma loadLines_append:
  "loadLines load fmt filename lineNum (pre @ post) st =
     (case loadLines load fmt filename lineNum pre st of
        None \<Rightarrow> None
      | Some (Inl e) \<Rightarrow> Some (Inl e)
      | Some (Inr st') \<Rightarrow> loadLines load fmt filename (lineNum + length pre) post st')"
proof (induction pre arbitrary: lineNum st)
  case Nil
  show ?case by simp
next
  case (Cons line pre)
  show ?case
    using Cons.IH [of "Suc lineNum"]
    by (simp split: option.splits sum.splits)
qed

lemma loadLines_first_error:
  assumes "loadLines load fmt filename lineNum pre st = Some (Inr st')"
      and "loadLine load fmt filename (lineNum + length pre) line st' = Some (Inl e)"
  shows "loadLines load fmt filename lineNum (pre @ line # post) st = Some (Inl e)"
  using assms by (simp add: loadLines_append)

lemma lineBinding_classify:
  "lineBinding load fmt filename line name =
     (case classify line of
        Blank \<Rightarrow> None
      | Include p \<Rightarrow>
          (case load (replace_regex_copy fmt filename filenameParse (CHR ''/'' # p)) of
             Some (Inr (t, w)) \<Rightarrow> map_of t name
           | _ \<Rightarrow> None)
      | Assignment ty name' valueText \<Rightarrow>
          if name' = name then Some (parseValue ty valueText\<lparr>type := canonical ty\<rparr>) else None
      | Malformed \<Rightarrow> None)"
  by (auto simp: lineBinding_def classify_def split: option.splits)

lemma lastBinding_append:
  "lastBinding load fmt filename name before (pre @ post)
     = lastBinding load fmt filename name (lastBinding load fmt filename name before pre) post"
  by (simp add: lastBinding_def)

lemma lastBinding_unbound:
  "list_all (\<lambda>l. lineBinding load fmt filename l name = None) post \<Longrightarrow>
     lastBinding load fmt filename name before post = before"
  by (induction post arbitrary: before) (simp_all add: lastBinding_def)

lemma lastBinding_last:
  assumes "lineBinding load fmt filename line name = Some v"
      and "list_all (\<lambda>l. lineBinding load fmt filename l name = None) post"
  shows "lastBinding load fmt filename name before (pre @ line # post) = Some v"
proof -
  have "lastBinding load fmt filename name before (pre @ line # post)
      = lastBinding load fmt filename name
          (lastBinding load fmt filename name (lastBinding load fmt filename name before pre) [line]) post"
    using lastBinding_append [of load fmt filename name before pre "[line] @ post"]
          lastBinding_append [of load fmt filename name _ "[line]" post]
    by simp
  also have "lastBinding load fmt filename name (lastBinding load fmt filename name before pre) [line]
      = Some v"
    using assms(1) by (simp add: lastBinding_def)
  finally show ?thesis using lastBinding_unbound [OF assms(2)] by simp
qed

lemma loadConfig_table:
  assumes "fs filename = Some lines"
      and "list_all (lineLoads (loadConfig fmt n fs) fmt filename) lines"
  shows "\<exists>t w. loadConfig fmt (Suc n) fs filename = Some (Inr (t, w))
           \<and> (\<forall>name. map_of t name = lastBinding (loadConfig fmt n fs) fmt filename name None lines)"
proof -
  from assms(2) obtain st' where
    "loadLines (loadConfig fmt n fs) fmt filename 1 lines ([], []) = Some (Inr st')"
    using loadLines_table_iff [of "loadConfig fmt n fs" fmt filename 1 lines "([], [])"] by blast
  then obtain t w where l: "loadLines (loadConfig fmt n fs) fmt filename 1 lines ([], []) = Some (Inr (t, w))"
    by (cases st') auto
  have e: "wellFormed []" by (simp add: wellFormed_def realTable_def)
  have "map_of t name = lastBinding (loadConfig fmt n fs) fmt filename name None lines" for name
    using loadLines_invariant [where load = "loadConfig fmt n fs" and name = name,
         OF loadConfig_wellFormed e l]
    by simp
  with l assms(1) show ?thesis by simp
qed

lemma loadConfig_table_lines:
  assumes "loadConfig fmt (Suc n) fs filename = Some (Inr (t, w))"
  shows "\<exists>lines. fs filename = Some lines
           \<and> list_all (lineLoads (loadConfig fmt n fs) fmt filename) lines"
proof -
  from assms obtain lines where f: "fs filename = Some lines"
    and l: "loadLines (loadConfig fmt n fs) fmt filename 1 lines ([], []) = Some (Inr (t, w))"
    by (auto split: option.splits)
  from l have "list_all (lineLoads (loadConfig fmt n fs) fmt filename) lines"
    using loadLines_table_iff [of "loadConfig fmt n fs" fmt filename 1 lines "([], [])"] by blast
  with f show ?thesis by simp
qed

lemma loadConfig_first_error:
  assumes f: "fs filename = Some (pre @ line # post)"
      and p: "list_all (lineLoads (loadConfig fmt n fs) fmt filename) pre"
      and c: "classify line = Assignment ty name valueText"
      and e: "ty \<notin> set typeNames \<or> rejected ty valueText"
  shows "loadConfig fmt (Suc n) fs filename =
           Some (Inl (if ty \<notin> set typeNames then InvalidTypeName filename (Suc (length pre)) ty
                      else InvalidValueFormat filename (Suc (length pre))))"
proof -
  from p obtain st' where
    s: "loadLines (loadConfig fmt n fs) fmt filename 1 pre ([], []) = Some (Inr st')"
    using loadLines_table_iff [of "loadConfig fmt n fs" fmt filename 1 pre "([], [])"] by blast
  obtain result w where st': "st' = (result, w)" by (cases st')
  have "loadLine (loadConfig fmt n fs) fmt filename (1 + length pre) line st' =
      Some (Inl (if ty \<notin> set typeNames then InvalidTypeName filename (Suc (length pre)) ty
                      else InvalidValueFormat filename (Suc (length pre))))"
    unfolding st' loadLine_classify c using e by auto
  from loadLines_first_error [OF s this] f show ?thesis by simp
qed

lemma initArgs_define_error:
  assumes "take 2 a = ''-D''" "ty \<notin> set typeNames \<or> rejected ty valueText"
  shows "initArgs fmt n fs (a # ty # valueText # args) S =
           Some (Inl (if ty \<notin> set typeNames then UserInvalidTypeName (drop 2 a) ty
                      else UserInvalidValueFormat (drop 2 a)))"
proof -
  from assms(1) have a: "a \<noteq> ''--use-config''" "a \<noteq> ''--add-config''" by auto
  have k: "type (parseValue ty valueText) =
     (if ty \<notin> set typeNames then ''invalid type name''
      else if rejected ty valueText then ''invalid syntax'' else canonical ty)"
    by (rule parseValue_kind)
  show ?thesis
    using assms a by (auto simp: Let_def k)
qed

lemma initArgs_define:
  assumes "take 2 a = ''-D''" "ty \<in> set typeNames" "\<not> rejected ty valueText"
  shows "initArgs fmt n fs (a # ty # valueText # args) S =
           initArgs fmt n fs args (S\<lparr>userDefs := AList.update (drop 2 a) (parseValue ty valueText) (userDefs S)\<rparr>)"
proof -
  from assms(1) have a: "a \<noteq> ''--use-config''" "a \<noteq> ''--add-config''" by auto
  have k: "type (parseValue ty valueText) = canonical ty"
    using assms by (simp add: parseValue_kind)
  have c: "canonical ty \<noteq> ''invalid type name''" "canonical ty \<noteq> ''invalid syntax''"
    using canonical_real [OF assms(2)] real_not_error by blast+
  show ?thesis
    using assms a c by (simp add: Let_def k)
qed

lemma initConfig_define_error:
  assumes "take 2 a = ''-D''" "ty \<notin> set typeNames \<or> rejected ty valueText"
  shows "initConfig fmt n fs (prog # a # ty # valueText # args) defaultFilename S =
           Some (Inl (if ty \<notin> set typeNames then UserInvalidTypeName (drop 2 a) ty
                      else UserInvalidValueFormat (drop 2 a)))"
  unfolding initConfig_def using initArgs_define_error [OF assms] by simp

lemma loadConfig_erroneous_line:
  assumes "fs filename = Some lines" "line \<in> set lines"
      and "classify line = Assignment ty name valueText"
      and "ty \<notin> set typeNames \<or> rejected ty valueText"
  shows "loadConfig fmt k fs filename \<noteq> Some (Inr (t, w))"
proof (cases k)
  case 0
  then show ?thesis by simp
next
  case (Suc n)
  show ?thesis
  proof
    assume "loadConfig fmt k fs filename = Some (Inr (t, w))"
    from loadConfig_table_lines [OF this [unfolded Suc]] assms(1)
    have "list_all (lineLoads (loadConfig fmt n fs) fmt filename) lines" by simp
    with assms(2) have "lineLoads (loadConfig fmt n fs) fmt filename line"
      by (simp add: list_all_iff)
    with assms(3,4) show False by (auto simp: lineLoads_def)
  qed
qed

lemma loadLine_erroneous:
  assumes "classify line = Assignment ty name valueText"
      and "ty \<notin> set typeNames \<or> rejected ty valueText"
  shows "loadLine load fmt filename lineNum line (result, w) =
           Some (Inl (if ty \<notin> set typeNames then InvalidTypeName filename lineNum ty
                      else InvalidValueFormat filename lineNum))"
  unfolding loadLine_classify assms(1) using assms(2) by auto

lemma loadLine_include_error:
  assumes "classify line = Include p"
      and "load (replace_regex_copy fmt filename filenameParse (CHR ''/'' # p)) = Some (Inl e)"
  shows "loadLine load fmt filename lineNum line (result, w) = Some (Inl e)"
  unfolding loadLine_classify assms(1) using assms(2) by simp

section \<open>The round trip of integers\<close>

lemma roundTrip_lines:
  "loadLines load fmt filename lineNum roundTrip ([], []) = Some (Inr (roundTripTable, []))"
  by code_simp

lemma roundTrip_get:
  "get fmt (Suc n) (fs(path \<mapsto> roundTrip)) (initConfigFile path startup) =
     Some (Inr (roundTripTable,
       \<lparr>m_instance = Some roundTripTable, configFile = path, userDefs = [], cerr = []\<rparr>))"
  by (simp add: get_def initConfigFile_def startup_def roundTrip_lines)

text \<open>
  C6. A file with the lines \<open>int X = 42\<close>, \<open>hex Y = 0x1F\<close> and \<open>octal Z = 017\<close> loads, at any
  path and whatever else the file system holds; the instance built from it returns 42, 31
  and 15 for \<open>X\<close>, \<open>Y\<close> and \<open>Z\<close>, and all three entries have the type name \<open>int\<close>.
\<close>

theorem round_trip_int_hex_octal:
  "\<exists>config S.
      get fmt (Suc n) (fs(path \<mapsto> roundTrip)) (initConfigFile path startup) = Some (Inr (config, S))
    \<and> getIntConfig config ''X'' = Inr 42
    \<and> getIntConfig config ''Y'' = Inr 31
    \<and> getIntConfig config ''Z'' = Inr 15
    \<and> map (\<lambda>(name, v). (name, type v)) config
        = [(''X'', ''int''), (''Y'', ''int''), (''Z'', ''int'')]"
proof -
  have v: "getIntConfig roundTripTable ''X'' = Inr 42" "getIntConfig roundTripTable ''Y'' = Inr 31"
       "getIntConfig roundTripTable ''Z'' = Inr 15"
       "map (\<lambda>(name, v). (name, type v)) roundTripTable
          = [(''X'', ''int''), (''Y'', ''int''), (''Z'', ''int'')]"
    by code_simp+
  show ?thesis
  proof (intro exI conjI)
    show "get fmt (Suc n) (fs(path \<mapsto> roundTrip)) (initConfigFile path startup) =
      Some (Inr (roundTripTable,
        \<lparr>m_instance = Some roundTripTable, configFile = path, userDefs = [], cerr = []\<rparr>))"
      by (rule roundTrip_get)
  qed (rule v)+
qed

section \<open>Stored type names\<close>

text \<open>
  C4. Every value in a table that comes out of a load, of a merge of two such tables, of
  \<open>initConfig\<close> or of \<open>get\<close> has one of the five type names \<open>int\<close>, \<open>float\<close>, \<open>bool\<close>,
  \<open>char\<close>, \<open>string\<close>. \<open>parseValue\<close> gives the name \<open>invalid type name\<close> exactly for a
  type name it does not know and the name \<open>invalid syntax\<close> exactly for a text that is
  not accepted; an assignment with such a type name or such a text ends the loop body with
  the error for it, and so does an include of a file whose load ends with an error. A
  load ends with the error of the first such assignment, when the loop goes past the lines
  before it, and never returns a table for a file that has such an assignment; a \<open>-D\<close>
  argument with such a type name or text ends \<open>initConfig\<close> with the error for it.
\<close>

theorem stored_tags_real:
  "(loadConfig fmt n fs filename = Some (Inr (t, w)) \<longrightarrow> realTable t)
   \<and> (realTable c1 \<and> realTable c2 \<longrightarrow> realTable (mergeConfigTables c1 c2))
   \<and> (realStatics S \<and> initConfig fmt n fs argv defaultFilename S = Some (Inr S') \<longrightarrow> realStatics S')
   \<and> (realStatics S \<and> get fmt n fs S = Some (Inr (config, S'')) \<longrightarrow>
        realTable config \<and> realStatics S'')
   \<and> realStatics startup
   \<and> type (parseValue ty valueText) =
        (if ty \<notin> set typeNames then ''invalid type name''
         else if rejected ty valueText then ''invalid syntax'' else canonical ty)
   \<and> (ty \<in> set typeNames \<longrightarrow> canonical ty \<in> set realKinds)
   \<and> (classify line = Assignment ty name valueText
        \<and> (ty \<notin> set typeNames \<or> rejected ty valueText) \<longrightarrow>
        loadLine load fmt filename lineNum line (result, w0) =
          Some (Inl (if ty \<notin> set typeNames then InvalidTypeName filename lineNum ty
                     else InvalidValueFormat filename lineNum)))
   \<and> (classify line = Include p
        \<and> load (replace_regex_copy fmt filename filenameParse (CHR ''/'' # p)) = Some (Inl e) \<longrightarrow>
        loadLine load fmt filename lineNum line (result, w0) = Some (Inl e))
   \<and> (fs filename = Some (pre @ line # post)
        \<and> list_all (lineLoads (loadConfig fmt n fs) fmt filename) pre
        \<and> classify line = Assignment ty name valueText
        \<and> (ty \<notin> set typeNames \<or> rejected ty valueText) \<longrightarrow>
        loadConfig fmt (Suc n) fs filename =
          Some (Inl (if ty \<notin> set typeNames then InvalidTypeName filename (Suc (length pre)) ty
                     else InvalidValueFormat filename (Suc (length pre)))))
   \<and> (fs filename = Some lines \<and> line \<in> set lines
        \<and> classify line = Assignment ty name valueText
        \<and> (ty \<notin> set typeNames \<or> rejected ty valueText) \<longrightarrow>
        loadConfig fmt k fs filename \<noteq> Some (Inr (t', w')))
   \<and> (take 2 a = ''-D'' \<and> (ty \<notin> set typeNames \<or> rejected ty valueText) \<longrightarrow>
        initArgs fmt n fs (a # ty # valueText # args) S =
          Some (Inl (if ty \<notin> set typeNames then UserInvalidTypeName (drop 2 a) ty
                     else UserInvalidValueFormat (drop 2 a)))
        \<and> initConfig fmt n fs (prog # a # ty # valueText # args) defaultFilename S =
          Some (Inl (if ty \<notin> set typeNames then UserInvalidTypeName (drop 2 a) ty
                     else UserInvalidValueFormat (drop 2 a))))"
proof -
  have 1: "loadConfig fmt n fs filename = Some (Inr (t, w)) \<longrightarrow> realTable t"
    by (auto intro: loadConfig_real)
  have 2: "realTable c1 \<and> realTable c2 \<longrightarrow> realTable (mergeConfigTables c1 c2)"
    by (simp add: mergeConfigTables_real)
  have 3: "realStatics S \<and> initConfig fmt n fs argv defaultFilename S = Some (Inr S') \<longrightarrow> realStatics S'"
  proof
    assume a: "realStatics S \<and> initConfig fmt n fs argv defaultFilename S = Some (Inr S')"
    then have "realStatics (S\<lparr>configFile := defaultFilename\<rparr>)" by (simp add: realStatics_def)
    with a show "realStatics S'"
      unfolding initConfig_def by (blast intro: initArgs_real)
  qed
  have 4: "realStatics S \<and> get fmt n fs S = Some (Inr (config, S'')) \<longrightarrow>
        realTable config \<and> realStatics S''"
  proof
    assume a: "realStatics S \<and> get fmt n fs S = Some (Inr (config, S''))"
    have c: "realTable config"
    proof (cases "m_instance S")
      case None
      with a obtain t w where l: "loadConfig fmt n fs (configFile S) = Some (Inr (t, w))"
        and c: "config = mergeConfigTables t (userDefs S)"
        by (auto simp: get_def Let_def split: option.splits sum.splits)
      from a loadConfig_real [OF l] show ?thesis
        by (simp add: c realStatics_def mergeConfigTables_real)
    next
      case (Some c)
      with a show ?thesis by (auto simp: get_def realStatics_def)
    qed
    with a have "realStatics S''"
      by (auto simp: get_def Let_def realStatics_def split: option.splits sum.splits)
    with c show "realTable config \<and> realStatics S''" by simp
  qed
  have 5: "realStatics startup"
    by (simp add: realStatics_def startup_def realTable_def)
  have 6: "type (parseValue ty valueText) =
        (if ty \<notin> set typeNames then ''invalid type name''
         else if rejected ty valueText then ''invalid syntax'' else canonical ty)"
    by (rule parseValue_kind)
  have 7: "ty \<in> set typeNames \<longrightarrow> canonical ty \<in> set realKinds"
    by (simp add: canonical_real)
  have 8: "classify line = Assignment ty name valueText
        \<and> (ty \<notin> set typeNames \<or> rejected ty valueText) \<longrightarrow>
        loadLine load fmt filename lineNum line (result, w0) =
          Some (Inl (if ty \<notin> set typeNames then InvalidTypeName filename lineNum ty
                     else InvalidValueFormat filename lineNum))"
    using loadLine_erroneous [of line ty name valueText load fmt filename lineNum result w0] by blast
  have 9: "classify line = Include p
        \<and> load (replace_regex_copy fmt filename filenameParse (CHR ''/'' # p)) = Some (Inl e) \<longrightarrow>
        loadLine load fmt filename lineNum line (result, w0) = Some (Inl e)"
    using loadLine_include_error [of line p load fmt filename e lineNum result w0] by blast
  have 10: "fs filename = Some (pre @ line # post)
        \<and> list_all (lineLoads (loadConfig fmt n fs) fmt filename) pre
        \<and> classify line = Assignment ty name valueText
        \<and> (ty \<notin> set typeNames \<or> rejected ty valueText) \<longrightarrow>
        loadConfig fmt (Suc n) fs filename =
          Some (Inl (if ty \<notin> set typeNames then InvalidTypeName filename (Suc (length pre)) ty
                     else InvalidValueFormat filename (Suc (length pre))))"
    using loadConfig_first_error [of fs filename pre line post fmt n ty name valueText] by blast
  have 11: "fs filename = Some lines \<and> line \<in> set lines
        \<and> classify line = Assignment ty name valueText
        \<and> (ty \<notin> set typeNames \<or> rejected ty valueText) \<longrightarrow>
        loadConfig fmt k fs filename \<noteq> Some (Inr (t', w'))"
    using loadConfig_erroneous_line [of fs filename lines line ty name valueText fmt k t' w'] by blast
  have 12: "take 2 a = ''-D'' \<and> (ty \<notin> set typeNames \<or> rejected ty valueText) \<longrightarrow>
        initArgs fmt n fs (a # ty # valueText # args) S =
          Some (Inl (if ty \<notin> set typeNames then UserInvalidTypeName (drop 2 a) ty
                     else UserInvalidValueFormat (drop 2 a)))
        \<and> initConfig fmt n fs (prog # a # ty # valueText # args) defaultFilename S =
          Some (Inl (if ty \<notin> set typeNames then UserInvalidTypeName (drop 2 a) ty
                     else UserInvalidValueFormat (drop 2 a)))"
    using initArgs_define_error [of a ty valueText fmt n fs args S]
          initConfig_define_error [of a ty valueText fmt n fs prog args defaultFilename S]
    by blast
  from 1 2 3 4 5 6 7 8 9 10 11 12 show ?thesis by (intro conjI)
qed

lemma includeFiles_load:
  "loadConfig plain (Suc 1) includeFiles ''cfg/root.cfg''
     = Some (Inr ([(''N'', \<lparr>type = ''int'', un = IntVal 2\<rparr>)], [Rebound ''cfg/root.cfg'' 2 ''N'']))"
  by code_simp

lemma example_init:
  "initConfig plain (Suc 1) includeFiles exampleArgv ''cfg/root.cfg'' startup = Some (Inr exampleStatics)"
  by code_simp

lemma example_get:
  "get plain (Suc 1) includeFiles exampleStatics
     = Some (Inr (exampleConfig, exampleStatics\<lparr>m_instance := Some exampleConfig,
          cerr := [Rebound ''cfg/root.cfg'' 2 ''N'']\<rparr>))"
  by code_simp

lemma badFiles_facts:
  "badFiles ''bad.cfg'' = Some [''int X = 1'', ''int Y = zz'']"
  "list_all (lineLoads (loadConfig plain 0 badFiles) plain ''bad.cfg'') [''int X = 1'']"
  "classify ''int Y = zz'' = Assignment ''int'' ''Y'' ''zz''"
  "''int'' \<in> set typeNames" "rejected ''int'' ''zz''"
  "badFiles ''kind.cfg'' = Some [''foo X = 1'']"
  "classify ''foo X = 1'' = Assignment ''foo'' ''X'' ''1''"
  "''foo'' \<notin> set typeNames"
  "badFiles ''big.cfg'' = Some [''float F = 1e39'']"
  "classify ''float F = 1e39'' = Assignment ''float'' ''F'' ''1e39''"
  "''float'' \<in> set typeNames" "rejected ''float'' ''1e39''"
  "''hex'' \<in> set typeNames" "rejected ''hex'' ''zz''" "take 2 ''-DK'' = ''-D''" "drop 2 ''-DK'' = ''K''"
  by code_simp+

theorem stored_tags_real_witness:
  "loadConfig plain (Suc 1) includeFiles ''cfg/root.cfg''
     = Some (Inr ([(''N'', \<lparr>type = ''int'', un = IntVal 2\<rparr>)], [Rebound ''cfg/root.cfg'' 2 ''N'']))
   \<and> realTable [(''N'', \<lparr>type = ''int'', un = IntVal 2\<rparr>)]
   \<and> realStatics startup
   \<and> initConfig plain (Suc 1) includeFiles exampleArgv ''cfg/root.cfg'' startup = Some (Inr exampleStatics)
   \<and> realStatics exampleStatics
   \<and> get plain (Suc 1) includeFiles exampleStatics
        = Some (Inr (exampleConfig, exampleStatics\<lparr>m_instance := Some exampleConfig,
             cerr := [Rebound ''cfg/root.cfg'' 2 ''N'']\<rparr>))
   \<and> realTable exampleConfig
   \<and> classify ''int Y = zz'' = Assignment ''int'' ''Y'' ''zz''
   \<and> rejected ''int'' ''zz''
   \<and> type (parseValue ''int'' ''zz'') = ''invalid syntax''
   \<and> loadLine (\<lambda>_. None) plain ''bad.cfg'' 2 ''int Y = zz'' ([], []) = Some (Inl (InvalidValueFormat ''bad.cfg'' 2))
   \<and> loadConfig plain (Suc 0) badFiles ''bad.cfg'' = Some (Inl (InvalidValueFormat ''bad.cfg'' 2))
   \<and> loadConfig plain 5 badFiles ''bad.cfg'' \<noteq> Some (Inr ([], []))
   \<and> loadConfig plain (Suc 0) badFiles ''kind.cfg'' = Some (Inl (InvalidTypeName ''kind.cfg'' 1 ''foo''))
   \<and> rejected ''float'' ''1e39''
   \<and> loadConfig plain (Suc 0) badFiles ''big.cfg'' = Some (Inl (InvalidValueFormat ''big.cfg'' 1))
   \<and> initConfig plain (Suc 0) badFiles [''prog'', ''-DK'', ''hex'', ''zz''] ''bad.cfg'' startup
        = Some (Inl (UserInvalidValueFormat ''K''))"
proof -
  note a = stored_tags_real [of plain "Suc 1" includeFiles "''cfg/root.cfg''"
          "[(''N'', \<lparr>type = ''int'', un = IntVal 2\<rparr>)]" "[Rebound ''cfg/root.cfg'' 2 ''N'']"
          "[]" "[]" startup exampleArgv "''cfg/root.cfg''" exampleStatics exampleConfig
          "exampleStatics\<lparr>m_instance := Some exampleConfig, cerr := [Rebound ''cfg/root.cfg'' 2 ''N'']\<rparr>"]
  note b = stored_tags_real [of plain "Suc 1" includeFiles "''cfg/root.cfg''"
          "[(''N'', \<lparr>type = ''int'', un = IntVal 2\<rparr>)]" "[Rebound ''cfg/root.cfg'' 2 ''N'']"
          "[]" "[]" exampleStatics exampleArgv "''cfg/root.cfg''" exampleStatics exampleConfig
          "exampleStatics\<lparr>m_instance := Some exampleConfig, cerr := [Rebound ''cfg/root.cfg'' 2 ''N'']\<rparr>"]
  from a includeFiles_load have 1: "realTable [(''N'', \<lparr>type = ''int'', un = IntVal 2\<rparr>)]"
    by blast
  from a have 2: "realStatics startup" by blast
  from a 2 example_init have 3: "realStatics exampleStatics" by blast
  from b 3 example_get have 4: "realTable exampleConfig" by blast
  have 5: "type (parseValue ''int'' ''zz'') = ''invalid syntax''"
    using stored_tags_real [where ty = "''int''" and valueText = "''zz''", THEN conjunct2, THEN conjunct2, THEN conjunct2, THEN conjunct2, THEN conjunct2, THEN conjunct1]
          badFiles_facts(4,5)
    by simp
  have 6: "loadLine (\<lambda>_. None) plain ''bad.cfg'' 2 ''int Y = zz'' ([], [])
             = Some (Inl (InvalidValueFormat ''bad.cfg'' 2))"
    using stored_tags_real [where line = "''int Y = zz''" and ty = "''int''" and name = "''Y''"
            and valueText = "''zz''" and load = "\<lambda>_. None" and fmt = plain
            and filename = "''bad.cfg''" and lineNum = 2 and result = "[]" and ?w0.0 = "[]", THEN conjunct2, THEN conjunct2, THEN conjunct2, THEN conjunct2, THEN conjunct2, THEN conjunct2, THEN conjunct2, THEN conjunct1]
          badFiles_facts(3,4,5)
    by simp
  have 7: "loadConfig plain (Suc 0) badFiles ''bad.cfg'' = Some (Inl (InvalidValueFormat ''bad.cfg'' 2))"
    using stored_tags_real [where fmt = plain and n = 0 and fs = badFiles and filename = "''bad.cfg''"
            and pre = "[''int X = 1'']" and line = "''int Y = zz''" and post = "[]" and ty = "''int''"
            and name = "''Y''" and valueText = "''zz''", THEN conjunct2, THEN conjunct2, THEN conjunct2, THEN conjunct2, THEN conjunct2, THEN conjunct2, THEN conjunct2, THEN conjunct2, THEN conjunct2, THEN conjunct1]
          badFiles_facts(1,2,3,4,5)
    by (simp del: loadConfig.simps add: numeral_2_eq_2)
  have 8: "loadConfig plain 5 badFiles ''bad.cfg'' \<noteq> Some (Inr ([], []))"
    using stored_tags_real [where fmt = plain and fs = badFiles and filename = "''bad.cfg''"
            and lines = "[''int X = 1'', ''int Y = zz'']" and line = "''int Y = zz''" and ty = "''int''"
            and name = "''Y''" and valueText = "''zz''" and k = 5 and t' = "[]" and w' = "[]", THEN conjunct2, THEN conjunct2, THEN conjunct2, THEN conjunct2, THEN conjunct2, THEN conjunct2, THEN conjunct2, THEN conjunct2, THEN conjunct2, THEN conjunct2, THEN conjunct1]
          badFiles_facts(1,3,4,5)
    by (simp del: loadConfig.simps)
  have 9: "loadConfig plain (Suc 0) badFiles ''kind.cfg''
             = Some (Inl (InvalidTypeName ''kind.cfg'' 1 ''foo''))"
    using stored_tags_real [where fmt = plain and n = 0 and fs = badFiles and filename = "''kind.cfg''"
            and pre = "[]" and line = "''foo X = 1''" and post = "[]" and ty = "''foo''"
            and name = "''X''" and valueText = "''1''", THEN conjunct2, THEN conjunct2, THEN conjunct2, THEN conjunct2, THEN conjunct2, THEN conjunct2, THEN conjunct2, THEN conjunct2, THEN conjunct2, THEN conjunct1]
          badFiles_facts(6,7,8)
    by (simp del: loadConfig.simps)
  have 10: "loadConfig plain (Suc 0) badFiles ''big.cfg''
             = Some (Inl (InvalidValueFormat ''big.cfg'' 1))"
    using stored_tags_real [where fmt = plain and n = 0 and fs = badFiles and filename = "''big.cfg''"
            and pre = "[]" and line = "''float F = 1e39''" and post = "[]" and ty = "''float''"
            and name = "''F''" and valueText = "''1e39''", THEN conjunct2, THEN conjunct2, THEN conjunct2, THEN conjunct2, THEN conjunct2, THEN conjunct2, THEN conjunct2, THEN conjunct2, THEN conjunct2, THEN conjunct1]
          badFiles_facts(9,10,11,12)
    by (simp del: loadConfig.simps)
  have 11: "initConfig plain (Suc 0) badFiles [''prog'', ''-DK'', ''hex'', ''zz''] ''bad.cfg'' startup
        = Some (Inl (UserInvalidValueFormat ''K''))"
    using stored_tags_real [where fmt = plain and n = "Suc 0" and fs = badFiles and a = "''-DK''"
            and ty = "''hex''" and valueText = "''zz''" and args = "[]" and prog = "''prog''"
            and defaultFilename = "''bad.cfg''" and S = startup, THEN conjunct2, THEN conjunct2, THEN conjunct2, THEN conjunct2, THEN conjunct2, THEN conjunct2, THEN conjunct2, THEN conjunct2, THEN conjunct2, THEN conjunct2, THEN conjunct2]
          badFiles_facts(13,14,15,16)
    by (simp del: initArgs.simps)
  from includeFiles_load 1 2 example_init 3 example_get 4 badFiles_facts(3,5) 5 6 7 8 9
       badFiles_facts(12) 10 11
  show ?thesis by (intro conjI)
qed

section \<open>The last assignment wins\<close>

text \<open>
  C5. A load returns a table exactly when the loop goes past every line of the file, and
  whether it goes past a line does not depend on the names assigned before: a file that
  assigns a name again, with the same type or another one, loads. In the table, a name has
  the value that the last line of the file gave it, where an include line gives the names
  of the included table their values there, at its place among the lines; a name that no
  line gives a value is absent. The value comes from the last line that binds the name,
  whatever the lines before it did. The table does not depend on the warnings: the loop
  over the lines ends with the same table or the same error whatever the list of warnings
  was when it began. The witness is the root file that includes a file with \<open>int N = 1\<close>
  and then has \<open>int N = 2\<close>, where \<open>N\<close> is 2, and a file with \<open>int A = 1\<close> and then
  \<open>string A = x\<close>, where \<open>A\<close> is the string \<open>x\<close>.
\<close>

theorem last_assignment_wins:
  "(loadConfig fmt (Suc n) fs filename = Some (Inr (t, w)) \<longrightarrow>
      (\<exists>ls. fs filename = Some ls
         \<and> list_all (lineLoads (loadConfig fmt n fs) fmt filename) ls
         \<and> map_of t name = lastBinding (loadConfig fmt n fs) fmt filename name None ls))
   \<and> (fs filename = Some lines
        \<and> list_all (lineLoads (loadConfig fmt n fs) fmt filename) lines \<longrightarrow>
        (\<exists>t w. loadConfig fmt (Suc n) fs filename = Some (Inr (t, w))
           \<and> (\<forall>x. map_of t x = lastBinding (loadConfig fmt n fs) fmt filename x None lines)))
   \<and> (lineBinding load fmt filename line name = Some v
        \<and> list_all (\<lambda>l. lineBinding load fmt filename l name = None) post \<longrightarrow>
        lastBinding load fmt filename name before (pre @ line # post) = Some v)
   \<and> (list_all (\<lambda>l. lineBinding load fmt filename l name = None) lines' \<longrightarrow>
        lastBinding load fmt filename name before lines' = before)
   \<and> lineBinding load fmt filename line name =
        (case classify line of
           Blank \<Rightarrow> None
         | Include p \<Rightarrow>
             (case load (replace_regex_copy fmt filename filenameParse (CHR ''/'' # p)) of
                Some (Inr (t, w)) \<Rightarrow> map_of t name
              | _ \<Rightarrow> None)
         | Assignment ty name' valueText \<Rightarrow>
             if name' = name then Some (parseValue ty valueText\<lparr>type := canonical ty\<rparr>) else None
         | Malformed \<Rightarrow> None)
   \<and> tableOf (loadLines load fmt filename lineNum lines' (result, w1))
       = tableOf (loadLines load fmt filename lineNum lines' (result, w2))"
proof -
  have 1: "loadConfig fmt (Suc n) fs filename = Some (Inr (t, w)) \<longrightarrow>
      (\<exists>ls. fs filename = Some ls
         \<and> list_all (lineLoads (loadConfig fmt n fs) fmt filename) ls
         \<and> map_of t name = lastBinding (loadConfig fmt n fs) fmt filename name None ls)"
  proof
    assume a: "loadConfig fmt (Suc n) fs filename = Some (Inr (t, w))"
    then obtain ls where f: "fs filename = Some ls"
      and l: "loadLines (loadConfig fmt n fs) fmt filename 1 ls ([], []) = Some (Inr (t, w))"
      by (auto split: option.splits)
    from loadConfig_table_lines [OF a] f
    have ok: "list_all (lineLoads (loadConfig fmt n fs) fmt filename) ls" by simp
    have e: "wellFormed []" by (simp add: wellFormed_def realTable_def)
    from loadLines_invariant [where load = "loadConfig fmt n fs" and name = name,
           OF loadConfig_wellFormed e l]
    have "map_of t name = lastBinding (loadConfig fmt n fs) fmt filename name None ls" by simp
    with f ok show "\<exists>ls. fs filename = Some ls
         \<and> list_all (lineLoads (loadConfig fmt n fs) fmt filename) ls
         \<and> map_of t name = lastBinding (loadConfig fmt n fs) fmt filename name None ls"
      by blast
  qed
  have 2: "fs filename = Some lines
        \<and> list_all (lineLoads (loadConfig fmt n fs) fmt filename) lines \<longrightarrow>
        (\<exists>t w. loadConfig fmt (Suc n) fs filename = Some (Inr (t, w))
           \<and> (\<forall>x. map_of t x = lastBinding (loadConfig fmt n fs) fmt filename x None lines))"
    using loadConfig_table [of fs filename lines fmt n] by blast
  have 3: "lineBinding load fmt filename line name = Some v
        \<and> list_all (\<lambda>l. lineBinding load fmt filename l name = None) post \<longrightarrow>
        lastBinding load fmt filename name before (pre @ line # post) = Some v"
    using lastBinding_last [of load fmt filename line name v post before pre] by blast
  have 4: "list_all (\<lambda>l. lineBinding load fmt filename l name = None) lines' \<longrightarrow>
        lastBinding load fmt filename name before lines' = before"
    using lastBinding_unbound [of load fmt filename name lines' before] by blast
  have 5: "lineBinding load fmt filename line name =
        (case classify line of
           Blank \<Rightarrow> None
         | Include p \<Rightarrow>
             (case load (replace_regex_copy fmt filename filenameParse (CHR ''/'' # p)) of
                Some (Inr (t, w)) \<Rightarrow> map_of t name
              | _ \<Rightarrow> None)
         | Assignment ty name' valueText \<Rightarrow>
             if name' = name then Some (parseValue ty valueText\<lparr>type := canonical ty\<rparr>) else None
         | Malformed \<Rightarrow> None)"
    by (rule lineBinding_classify)
  have 6: "tableOf (loadLines load fmt filename lineNum lines' (result, w1))
       = tableOf (loadLines load fmt filename lineNum lines' (result, w2))"
    by (rule loadLines_tableOf)
  from 1 2 3 4 5 6 show ?thesis by (intro conjI)
qed

lemma includeFiles_bindings:
  "map (\<lambda>line. lineBinding (loadConfig plain 1 includeFiles) plain ''cfg/root.cfg'' line ''N'') rootLines
     = [Some \<lparr>type = ''int'', un = IntVal 1\<rparr>, Some \<lparr>type = ''int'', un = IntVal 2\<rparr>]"
  by code_simp

lemma redefined_facts:
  "redefined ''r.cfg'' = Some [''int A = 1'', ''string A = x'']"
  "list_all (lineLoads (loadConfig plain 0 redefined) plain ''r.cfg'') [''int A = 1'', ''string A = x'']"
  "lineBinding (loadConfig plain 0 redefined) plain ''r.cfg'' ''string A = x'' ''A''
     = Some \<lparr>type = ''string'', un = StringVal ''x''\<rparr>"
  "lineBinding (loadConfig plain 0 redefined) plain ''r.cfg'' ''int A = 1'' ''A''
     = Some \<lparr>type = ''int'', un = IntVal 1\<rparr>"
  "loadConfig plain (Suc 0) redefined ''r.cfg''
     = Some (Inr ([(''A'', \<lparr>type = ''string'', un = StringVal ''x''\<rparr>)], [Rebound ''r.cfg'' 2 ''A'']))"
  by code_simp+

theorem last_assignment_wins_witness:
  "loadConfig plain (Suc 1) includeFiles ''cfg/root.cfg''
     = Some (Inr ([(''N'', \<lparr>type = ''int'', un = IntVal 2\<rparr>)], [Rebound ''cfg/root.cfg'' 2 ''N'']))
   \<and> includeFiles ''cfg/root.cfg'' = Some rootLines
   \<and> map (\<lambda>line. lineBinding (loadConfig plain 1 includeFiles) plain ''cfg/root.cfg'' line ''N'') rootLines
       = [Some \<lparr>type = ''int'', un = IntVal 1\<rparr>, Some \<lparr>type = ''int'', un = IntVal 2\<rparr>]
   \<and> map_of [(''N'', \<lparr>type = ''int'', un = IntVal 2\<rparr>)] ''N''
       = lastBinding (loadConfig plain 1 includeFiles) plain ''cfg/root.cfg'' ''N'' None rootLines
   \<and> getIntConfig [(''N'', \<lparr>type = ''int'', un = IntVal 2\<rparr>)] ''N'' = Inr 2
   \<and> redefined ''r.cfg'' = Some [''int A = 1'', ''string A = x'']
   \<and> list_all (lineLoads (loadConfig plain 0 redefined) plain ''r.cfg'') [''int A = 1'', ''string A = x'']
   \<and> (\<exists>t w. loadConfig plain (Suc 0) redefined ''r.cfg'' = Some (Inr (t, w))
         \<and> map_of t ''A'' = Some \<lparr>type = ''string'', un = StringVal ''x''\<rparr>)"
proof -
  have f: "includeFiles ''cfg/root.cfg'' = Some rootLines"
    by (simp add: includeFiles_def)
  have g: "getIntConfig [(''N'', \<lparr>type = ''int'', un = IntVal 2\<rparr>)] ''N'' = Inr 2"
    by code_simp
  have 1: "map_of [(''N'', \<lparr>type = ''int'', un = IntVal 2\<rparr>)] ''N''
       = lastBinding (loadConfig plain 1 includeFiles) plain ''cfg/root.cfg'' ''N'' None rootLines"
    using last_assignment_wins [where fmt = plain and n = 1 and fs = includeFiles
            and filename = "''cfg/root.cfg''" and t = "[(''N'', \<lparr>type = ''int'', un = IntVal 2\<rparr>)]"
            and w = "[Rebound ''cfg/root.cfg'' 2 ''N'']" and name = "''N''", THEN conjunct1]
          includeFiles_load f
    by (simp del: loadConfig.simps)
  have 2: "lastBinding (loadConfig plain 0 redefined) plain ''r.cfg'' ''A'' None
             [''int A = 1'', ''string A = x''] = Some \<lparr>type = ''string'', un = StringVal ''x''\<rparr>"
    using last_assignment_wins [where load = "loadConfig plain 0 redefined" and fmt = plain
            and filename = "''r.cfg''" and line = "''string A = x''" and name = "''A''"
            and v = "\<lparr>type = ''string'', un = StringVal ''x''\<rparr>" and post = "[]" and before = None
            and pre = "[''int A = 1'']", THEN conjunct2, THEN conjunct2, THEN conjunct1]
          redefined_facts(3)
    by (simp del: loadConfig.simps)
  have 3: "\<exists>t w. loadConfig plain (Suc 0) redefined ''r.cfg'' = Some (Inr (t, w))
         \<and> (\<forall>x. map_of t x = lastBinding (loadConfig plain 0 redefined) plain ''r.cfg'' x None
                     [''int A = 1'', ''string A = x''])"
    using last_assignment_wins [where fmt = plain and n = 0 and fs = redefined
            and filename = "''r.cfg''" and lines = "[''int A = 1'', ''string A = x'']",
            THEN conjunct2, THEN conjunct1]
          redefined_facts(1,2)
    by (simp del: loadConfig.simps)
  from 3 2 have 4: "\<exists>t w. loadConfig plain (Suc 0) redefined ''r.cfg'' = Some (Inr (t, w))
         \<and> map_of t ''A'' = Some \<lparr>type = ''string'', un = StringVal ''x''\<rparr>"
    by (metis (no_types, lifting))
  have 5: "redefined ''r.cfg'' = Some [''int A = 1'', ''string A = x'']"
    "list_all (lineLoads (loadConfig plain 0 redefined) plain ''r.cfg'') [''int A = 1'', ''string A = x'']"
    using redefined_facts(1,2) by (simp_all del: loadConfig.simps)
  from includeFiles_load f includeFiles_bindings 1 g 5 4
  show ?thesis by (intro conjI)
qed

section \<open>Type names that are aliases\<close>

text \<open>
  C8 (as amended). For the type names \<open>hex\<close>, \<open>octal\<close> and \<open>boolean\<close>, \<open>parseValue\<close> never
  returns the name it was given: the type name of the result is \<open>int\<close> (for \<open>hex\<close> and
  \<open>octal\<close>) or \<open>bool\<close> (for \<open>boolean\<close>) when the text is accepted, and \<open>invalid syntax\<close>
  when it is not; and an assignment line with such a type name that the loop accepts
  stores its value under \<open>int\<close> or \<open>bool\<close>.
\<close>

theorem alias_kind_after_parse:
  assumes "ty \<in> set [''hex'', ''octal'', ''boolean'']"
  shows "type (parseValue ty valueText) \<noteq> ty
     \<and> (type (parseValue ty valueText) = canonical ty
          \<or> type (parseValue ty valueText) = ''invalid syntax'')
     \<and> canonical ty \<in> set [''int'', ''bool'']
     \<and> (\<not> isAllWhitespace line \<and> regex_match includeParse line = None
          \<and> regex_match lineParse line = Some parseResult \<and> caps parseResult 1 = ty
          \<and> loadLine load fmt filename lineNum line (result, w) = Some (Inr (result', w'))
         \<longrightarrow> (\<exists>v. map_of result' (caps parseResult 2) = Some v \<and> type v = canonical ty))"
proof -
  from assms have names: "ty = ''hex'' \<or> ty = ''octal'' \<or> ty = ''boolean''" by simp
  from parseValue_alias [OF names, of valueText]
  have k: "type (parseValue ty valueText) = canonical ty
           \<or> type (parseValue ty valueText) = ''invalid syntax''" .
  from names have c: "canonical ty \<in> set [''int'', ''bool'']"
    by (auto simp: canonical_def)
  from k names have n: "type (parseValue ty valueText) \<noteq> ty"
    by (auto simp: canonical_def)
  have l: "\<not> isAllWhitespace line \<and> regex_match includeParse line = None
          \<and> regex_match lineParse line = Some parseResult \<and> caps parseResult 1 = ty
          \<and> loadLine load fmt filename lineNum line (result, w) = Some (Inr (result', w'))
         \<longrightarrow> (\<exists>v. map_of result' (caps parseResult 2) = Some v \<and> type v = canonical ty)"
    by (auto simp: loadLine_def Let_def update_conv' split: if_splits)
  from n k c l show ?thesis by (intro conjI)
qed

lemma hexLine_match:
  "\<not> isAllWhitespace hexLine" "regex_match includeParse hexLine = None"
  "map_option (\<lambda>m. (caps m 1, caps m 2)) (regex_match lineParse hexLine) = Some (''hex'', ''MASK'')"
  "loadLine (\<lambda>_. None) plain ''a.cfg'' 1 hexLine ([], [])
     = Some (Inr ([(''MASK'', \<lparr>type = ''int'', un = IntVal 31\<rparr>)], []))"
  by code_simp+

theorem alias_kind_after_parse_witness:
  "''hex'' \<in> set [''hex'', ''octal'', ''boolean'']
   \<and> type (parseValue ''hex'' ''0x1F'') = ''int''
   \<and> type (parseValue ''hex'' ''zz'') = ''invalid syntax''
   \<and> \<not> isAllWhitespace hexLine \<and> regex_match includeParse hexLine = None
   \<and> loadLine (\<lambda>_. None) plain ''a.cfg'' 1 hexLine ([], [])
        = Some (Inr ([(''MASK'', \<lparr>type = ''int'', un = IntVal 31\<rparr>)], []))
   \<and> (\<exists>v. map_of [(''MASK'', \<lparr>type = ''int'', un = IntVal 31\<rparr>)] ''MASK'' = Some v
          \<and> type v = canonical ''hex'')"
proof -
  from hexLine_match(3) obtain pr where pr: "regex_match lineParse hexLine = Some pr"
      "caps pr 1 = ''hex''" "caps pr 2 = ''MASK''"
    by auto
  have p: "type (parseValue ''hex'' ''0x1F'') = ''int''"
          "type (parseValue ''hex'' ''zz'') = ''invalid syntax''"
    by code_simp+
  have a: "''hex'' \<in> set [''hex'', ''octal'', ''boolean'']" by simp
  have hyp: "\<not> isAllWhitespace hexLine \<and> regex_match includeParse hexLine = None
      \<and> regex_match lineParse hexLine = Some pr \<and> caps pr 1 = ''hex''
      \<and> loadLine (\<lambda>_. None) plain ''a.cfg'' 1 hexLine ([], [])
           = Some (Inr ([(''MASK'', \<lparr>type = ''int'', un = IntVal 31\<rparr>)], []))"
    using hexLine_match(1,2,4) pr(1,2) by (intro conjI)
  from alias_kind_after_parse [OF a, of "''0x1F''" hexLine pr "\<lambda>_. None" plain "''a.cfg''" 1
         "[]" "[]" "[(''MASK'', \<lparr>type = ''int'', un = IntVal 31\<rparr>)]" "[]"] hyp
  have "\<exists>v. map_of [(''MASK'', \<lparr>type = ''int'', un = IntVal 31\<rparr>)] (caps pr 2) = Some v
          \<and> type v = canonical ''hex''"
    by blast
  then have ex: "\<exists>v. map_of [(''MASK'', \<lparr>type = ''int'', un = IntVal 31\<rparr>)] ''MASK'' = Some v
          \<and> type v = canonical ''hex''"
    by (simp only: pr(3))
  from a p hexLine_match(1,2,4) ex show ?thesis by (intro conjI)
qed

text \<open>
  The claim C8 as it was stated fails on the text \<open>zz\<close> with the type name \<open>hex\<close>: the
  result has the type name \<open>invalid syntax\<close>, not \<open>int\<close>.
\<close>

theorem alias_error_not_canonical:
  "type (parseValue ''hex'' ''zz'') = ''invalid syntax'' \<and> type (parseValue ''hex'' ''zz'') \<noteq> ''int''"
  by code_simp

section \<open>References in a stored text\<close>

lemma star_k_class:
  assumes k: "\<And>m'. k m' \<noteq> None"
      and body: "\<And>k' m. body k' m = (case rest m of [] \<Rightarrow> None
                  | c # cs \<Rightarrow> if p c then k' (m\<lparr>seen := c # seen m, rest := cs\<rparr>) else None)"
  shows "length (rest m) \<le> n \<Longrightarrow>
     star_k n body k m
       = k (m\<lparr>seen := rev (takeWhile p (rest m)) @ seen m, rest := dropWhile p (rest m)\<rparr>)"
proof (induction n arbitrary: m)
  case 0
  then show ?case by (cases m) simp
next
  case (Suc n)
  show ?case
  proof (cases "rest m")
    case Nil
    have b: "body (star_k n body k) m = None"
      using Nil by (subst body) simp
    have "star_k (Suc n) body k m = k m"
      by (simp only: star_k.simps b option.case)
    with Nil show ?thesis by (cases m) simp
  next
    case (Cons c cs)
    show ?thesis
    proof (cases "p c")
      case True
      let ?m = "m\<lparr>seen := c # seen m, rest := cs\<rparr>"
      let ?m' = "m\<lparr>seen := rev (takeWhile p cs) @ c # seen m, rest := dropWhile p cs\<rparr>"
      from Suc.prems Cons have "length (rest ?m) \<le> n" by simp
      from Suc.IH [OF this] have e: "star_k n body k ?m = k ?m'"
        by simp
      from k [of ?m'] obtain r where r: "k ?m' = Some r" by auto
      have b: "body (star_k n body k) m = star_k n body k ?m"
        using Cons True by (subst body) simp
      have "star_k (Suc n) body k m = Some r"
        by (simp only: star_k.simps b e r option.case)
      with Cons True r show ?thesis by simp
    next
      case False
      have b: "body (star_k n body k) m = None"
        using Cons False by (subst body) simp
      have "star_k (Suc n) body k m = k m"
        by (simp only: star_k.simps b option.case)
      with Cons False show ?thesis by (cases m) simp
    qed
  qed
qed

lemma star_k_Chr:
  assumes "\<And>m'. k m' \<noteq> None" and "length (rest m) \<le> n"
  shows "star_k n (mk (Chr p)) k m
       = k (m\<lparr>seen := rev (takeWhile p (rest m)) @ seen m, rest := dropWhile p (rest m)\<rparr>)"
  using assms by (intro star_k_class) simp_all

lemma mk_varSearch:
  "mk varSearch Some \<lparr>seen = sn, rest = s, caps = c\<rparr> =
     (case s of
        d # a # s' \<Rightarrow>
          if d = CHR ''$'' \<and> isAlpha a
          then Some \<lparr>seen = rev (takeWhile isIdentChar s') @ a # d # sn,
                     rest = dropWhile isIdentChar s',
                     caps = c(1 := a # takeWhile isIdentChar s')\<rparr>
          else None
      | _ \<Rightarrow> None)"
proof (cases s)
  case Nil
  then show ?thesis by (simp add: varSearch_def Lit_def)
next
  case s: (Cons d t)
  show ?thesis
  proof (cases t)
    case Nil
    with s show ?thesis by (simp add: varSearch_def Lit_def identRx_def)
  next
    case (Cons a s')
    show ?thesis
    proof (cases "d = CHR ''$'' \<and> isAlpha a")
      case False
      with s Cons show ?thesis by (auto simp: varSearch_def Lit_def identRx_def)
    next
      case True
      let ?k = "\<lambda>m'. Some (m'\<lparr>caps := (caps m')
                  (1 := rev (take (length (seen m') - length (d # sn)) (seen m')))\<rparr>)"
      let ?m = "\<lparr>seen = a # d # sn, rest = s', caps = c\<rparr>"
      have "star_k (length s') (mk (Chr isIdentChar)) ?k ?m
              = ?k (?m\<lparr>seen := rev (takeWhile isIdentChar (rest ?m)) @ seen ?m,
                        rest := dropWhile isIdentChar (rest ?m)\<rparr>)"
        by (rule star_k_Chr) simp_all
      with s Cons True show ?thesis
        by (simp add: varSearch_def Lit_def identRx_def)
    qed
  qed
qed

lemma search_varSearch_None:
  "CHR ''$'' \<notin> set s \<Longrightarrow> search varSearch sn s = None"
proof (induction s arbitrary: sn)
  case Nil
  then show ?case by (simp add: mk_varSearch)
next
  case (Cons c cs)
  then have c: "c \<noteq> CHR ''$''" and cs: "CHR ''$'' \<notin> set cs" by auto
  from c have "mk varSearch Some \<lparr>seen = sn, rest = c # cs, caps = (\<lambda>_. [])\<rparr> = None"
    by (cases cs) (simp_all add: mk_varSearch)
  with Cons.IH [OF cs] show ?case by simp
qed

lemma search_varSearch_Some:
  "search varSearch sn s = Some (sn', m) \<Longrightarrow>
     \<exists>pre a name post.
        s = pre @ CHR ''$'' # a # name @ post \<and> isAlpha a \<and> list_all isIdentChar name
      \<and> (post = [] \<or> \<not> isIdentChar (hd post))
      \<and> sn' = rev pre @ sn \<and> seen m = rev name @ a # CHR ''$'' # sn' \<and> rest m = post
      \<and> caps m 1 = a # name"
proof (induction s arbitrary: sn)
  case Nil
  then show ?case by (simp add: mk_varSearch)
next
  case (Cons c cs)
  show ?case
  proof (cases "mk varSearch Some \<lparr>seen = sn, rest = c # cs, caps = (\<lambda>_. [])\<rparr>")
    case None
    with Cons.prems have "search varSearch (c # sn) cs = Some (sn', m)" by simp
    from Cons.IH [OF this] obtain pre a name post where
      "cs = pre @ CHR ''$'' # a # name @ post" "isAlpha a" "list_all isIdentChar name"
      "post = [] \<or> \<not> isIdentChar (hd post)" "sn' = rev pre @ c # sn"
      "seen m = rev name @ a # CHR ''$'' # sn'" "rest m = post" "caps m 1 = a # name"
      by blast
    then show ?thesis
      by (intro exI [of _ "c # pre"] exI [of _ a] exI [of _ name] exI [of _ post]) simp
  next
    case (Some m')
    with Cons.prems have m: "m' = m" "sn' = sn" by simp_all
    from Some obtain a s' where cs: "cs = a # s'" and c: "c = CHR ''$''" "isAlpha a"
      and m': "m' = \<lparr>seen = rev (takeWhile isIdentChar s') @ a # c # sn,
                     rest = dropWhile isIdentChar s',
                     caps = (\<lambda>_. [])(1 := a # takeWhile isIdentChar s')\<rparr>"
      by (auto simp: mk_varSearch split: list.splits if_splits)
    have "dropWhile isIdentChar s' = [] \<or> \<not> isIdentChar (hd (dropWhile isIdentChar s'))"
      using hd_dropWhile [of isIdentChar s'] by blast
    moreover have "seen m = rev (takeWhile isIdentChar s') @ a # c # sn"
      "rest m = dropWhile isIdentChar s'" "caps m 1 = a # takeWhile isIdentChar s'"
      unfolding m(1) [symmetric] m' by simp_all
    moreover have "list_all isIdentChar (takeWhile isIdentChar s')"
      by (auto simp: list_all_iff dest: set_takeWhileD)
    ultimately show ?thesis
      using cs c m(2)
      by (intro exI [of _ "[]"] exI [of _ a] exI [of _ "takeWhile isIdentChar s'"]
            exI [of _ "dropWhile isIdentChar s'"]) simp
  qed
qed

lemma refAt_shorter: "refAt s = Some (name, post) \<Longrightarrow> length post < length s"
  by (auto simp: refAt_def split: list.splits if_splits
           intro: le_imp_less_Suc less_SucI length_dropWhile_le)

lemma firstRef_shorter:
  "firstRef s = Some (pre, name, post) \<Longrightarrow> length post < length s"
proof (induction s arbitrary: pre name post)
  case Nil
  then show ?case by simp
next
  case (Cons c cs)
  show ?case
  proof (cases "refAt (c # cs)")
    case (Some p)
    with Cons.prems have "refAt (c # cs) = Some (name, post)" by (cases p) simp
    then show ?thesis by (rule refAt_shorter)
  next
    case None
    with Cons.prems obtain pre' where "firstRef cs = Some (pre', name, post)" by auto
    from Cons.IH [OF this] show ?thesis by simp
  qed
qed

lemma mk_varSearch_refAt:
  "mk varSearch Some \<lparr>seen = sn, rest = s, caps = c\<rparr> =
     map_option (\<lambda>(name, post). \<lparr>seen = rev name @ CHR ''$'' # sn, rest = post, caps = c(1 := name)\<rparr>)
       (refAt s)"
  by (simp add: mk_varSearch refAt_def split: list.splits)

lemma search_firstRef:
  "map_option (matchView sn) (search varSearch sn s)
     = map_option (\<lambda>(pre, name, post). (pre, name, rev name @ CHR ''$'' # rev pre @ sn, post))
         (firstRef s)"
proof (induction s arbitrary: sn)
  case Nil
  show ?case by (simp add: mk_varSearch_refAt refAt_def)
next
  case (Cons c cs)
  show ?case
  proof (cases "refAt (c # cs)")
    case (Some p)
    then show ?thesis
      by (cases p) (simp add: mk_varSearch_refAt matchView_def)
  next
    case None
    have "map_option (matchView sn) (search varSearch (c # sn) cs)
        = map_option (\<lambda>(pre, name, post). (c # pre, name, rev name @ CHR ''$'' # rev pre @ c # sn, post))
            (firstRef cs)"
    proof (cases "search varSearch (c # sn) cs")
      case None
      with Cons.IH [of "c # sn"] show ?thesis by (cases "firstRef cs") auto
    next
      case (Some p)
      obtain sn' m where p: "p = (sn', m)" by (cases p)
      from search_varSearch_Some [OF Some [unfolded p]] obtain pre where
        "sn' = rev pre @ c # sn" by blast
      then have t: "matchView sn (sn', m)
          = (case matchView (c # sn) (sn', m) of (pre, r) \<Rightarrow> (c # pre, r))"
        by (simp add: matchView_def)
      from Cons.IH [of "c # sn"] Some p show ?thesis
        by (cases "firstRef cs") (auto simp: t)
    qed
    with None show ?thesis
      by (simp add: mk_varSearch_refAt option.map_comp comp_def split_def)
  qed
qed

lemma pieceOf_simps:
  "pieceOf (Inl s) = Inl s" "pieceOf (Inr m) = Inr (caps m 1)"
  by (simp_all add: pieceOf_def)

lemma tokens_pieces:
  "map pieceOf (regex_tokens varSearch sn s) = pieces s"
proof (induction "length s" arbitrary: sn s rule: less_induct)
  case less
  show ?case
  proof (cases "search varSearch sn s")
    case None
    with search_firstRef [of sn s] have "firstRef s = None" by simp
    with None show ?thesis
      by (subst regex_tokens.simps, subst pieces.simps) (simp add: pieceOf_simps)
  next
    case (Some p)
    obtain sn' m where p: "p = (sn', m)" by (cases p)
    from search_firstRef [of sn s] Some p obtain pre name post where
      f: "firstRef s = Some (pre, name, post)"
      and v: "rev (take (length sn' - length sn) sn') = pre" "caps m 1 = name" "rest m = post"
      by (cases "firstRef s") (auto simp: matchView_def)
    from firstRef_shorter [OF f] v have l: "length (rest m) < length s" by simp
    from less [OF l, of "seen m"] v have "map pieceOf
        (regex_tokens varSearch (seen m) (rest m)) = pieces post"
      by simp
    with Some p f v l show ?thesis
      by (subst regex_tokens.simps, subst pieces.simps) (simp add: pieceOf_simps)
  qed
qed

lemma tokens_no_dollar:
  "CHR ''$'' \<notin> set s \<Longrightarrow> regex_tokens varSearch sn s = [Inl s]"
  by (subst regex_tokens.simps) (simp add: search_varSearch_None)

section \<open>The expansion of references\<close>

lemma replaced_simps:
  "replaced f (Inl s) out = (out = s)"
  "replaced f (Inr name) out = (f name = Some (Inr out))"
  by (simp_all add: replaced_def)

lemma expandTokens_Inr:
  "expandTokens f ts = Some (Inr out) \<Longrightarrow>
     \<exists>outs. list_all2 (replaced f) (map pieceOf ts) outs \<and> out = concat outs"
proof (induction ts arbitrary: out)
  case Nil
  then show ?case by simp
next
  case (Cons t ts)
  show ?case
  proof (cases t)
    case (Inl s)
    with Cons.prems obtain out' where o: "expandTokens f ts = Some (Inr out')" "out = s @ out'"
      by (auto split: option.splits sum.splits)
    from Cons.IH [OF o(1)] obtain outs where
      "list_all2 (replaced f) (map pieceOf ts) outs" "out' = concat outs"
      by blast
    with o Inl show ?thesis
      by (intro exI [of _ "s # outs"]) (simp add: replaced_simps pieceOf_simps)
  next
    case (Inr m)
    with Cons.prems obtain v out' where v: "f (caps m 1) = Some (Inr v)"
      and o: "expandTokens f ts = Some (Inr out')" "out = v @ out'"
      by (auto split: option.splits sum.splits)
    from Cons.IH [OF o(1)] obtain outs where
      "list_all2 (replaced f) (map pieceOf ts) outs" "out' = concat outs"
      by blast
    with o v Inr show ?thesis
      by (intro exI [of _ "v # outs"]) (simp add: replaced_simps pieceOf_simps)
  qed
qed

lemma expandTokens_mono:
  assumes fg: "\<And>x r. f x = Some r \<Longrightarrow> g x = Some r"
  shows "expandTokens f ts = Some r \<Longrightarrow> expandTokens g ts = Some r"
proof (induction ts arbitrary: r)
  case Nil
  then show ?case by simp
next
  case (Cons t ts)
  show ?case
  proof (cases t)
    case (Inl s)
    with Cons show ?thesis by (auto split: option.splits sum.splits)
  next
    case (Inr m)
    show ?thesis
    proof (cases "f (caps m 1)")
      case None
      with Cons.prems Inr show ?thesis by simp
    next
      case (Some a)
      note g = fg [OF Some]
      show ?thesis
      proof (cases a)
        case (Inl e)
        with Cons.prems Inr Some g show ?thesis by auto
      next
        case v: (Inr v)
        with Cons.prems Inr Some g Cons.IH show ?thesis
          by (auto split: option.splits sum.splits)
      qed
    qed
  qed
qed

lemma expandTokens_total:
  "(\<And>m. Inr m \<in> set ts \<Longrightarrow> \<exists>v. f (caps m 1) = Some (Inr v)) \<Longrightarrow>
     \<exists>out. expandTokens f ts = Some (Inr out)"
proof (induction ts)
  case Nil
  then show ?case by simp
next
  case (Cons t ts)
  from Cons have o: "\<exists>out. expandTokens f ts = Some (Inr out)" by simp
  show ?case
  proof (cases t)
    case (Inl s)
    with o show ?thesis by auto
  next
    case (Inr m)
    with Cons.prems [of m] obtain v where v: "f (caps m 1) = Some (Inr v)" by auto
    with o Inr show ?thesis by auto
  qed
qed

lemma getStringConfig_Suc:
  "getStringConfig n config name = Some r \<Longrightarrow> getStringConfig (Suc n) config name = Some r"
proof (induction n arbitrary: name r)
  case 0
  then show ?case by simp
next
  case (Suc n)
  show ?case
  proof (cases "map_of config name")
    case None
    with Suc.prems show ?thesis by simp
  next
    case (Some v)
    show ?thesis
    proof (cases "type v = ''string''")
      case False
      with Some Suc.prems show ?thesis by simp
    next
      case True
      with Some Suc.prems have
        "expandTokens (getStringConfig n config) (regex_tokens varSearch [] (stringVal (un v))) = Some r"
        by simp
      from expandTokens_mono [of "getStringConfig n config" "getStringConfig (Suc n) config", OF Suc.IH this]
      have "expandTokens (getStringConfig (Suc n) config)
              (regex_tokens varSearch [] (stringVal (un v))) = Some r" .
      with Some True show ?thesis by (simp del: getStringConfig.simps add: getStringConfig.simps(2) [of "Suc n"])
    qed
  qed
qed

lemma getStringConfig_mono:
  "getStringConfig n config name = Some r \<Longrightarrow> n \<le> k \<Longrightarrow> getStringConfig k config name = Some r"
  by (induction k) (auto simp: le_Suc_eq getStringConfig_Suc simp del: getStringConfig.simps)

lemma Inr_pieceOf:
  "Inr name \<in> set (map pieceOf ts) \<longleftrightarrow> (\<exists>m. Inr m \<in> set ts \<and> caps m 1 = name)"
proof (induction ts)
  case Nil
  show ?case by simp
next
  case (Cons t ts)
  then show ?case by (cases t) (auto simp: pieceOf_simps)
qed

lemma references_set:
  "set (references s) = {caps m 1 | m. Inr m \<in> set (regex_tokens varSearch [] s)}"
proof -
  have "set (references s) = {name. Inr name \<in> set (map pieceOf (regex_tokens varSearch [] s))}"
    unfolding tokens_pieces by (auto simp: references_def split: sum.splits)
  then show ?thesis
    unfolding Inr_pieceOf by auto
qed

lemma getStringConfig_returns:
  assumes res: "resolvable rank config"
  shows "map_of config name = Some v \<Longrightarrow> type v = ''string'' \<Longrightarrow>
         \<exists>out. getStringConfig (Suc (rank name)) config name = Some (Inr out)"
proof (induction "rank name" arbitrary: name v rule: less_induct)
  case less
  let ?ts = "regex_tokens varSearch [] (stringVal (un v))"
  from less.prems(1) have "(name, v) \<in> set config" by (rule map_of_SomeD)
  with res less.prems(2) have
    r: "\<And>x. x \<in> set (references (stringVal (un v))) \<Longrightarrow>
          rank x < rank name \<and> (\<exists>v'. map_of config x = Some v' \<and> type v' = ''string'')"
    by (fastforce simp: resolvable_def list_all_iff split: option.splits)
  have "\<exists>out. getStringConfig (rank name) config (caps m 1) = Some (Inr out)"
    if "Inr m \<in> set ?ts" for m
  proof -
    from that have "caps m 1 \<in> set (references (stringVal (un v)))"
      by (auto simp: references_set)
    from r [OF this] obtain v' where lt: "rank (caps m 1) < rank name"
      and v': "map_of config (caps m 1) = Some v'" "type v' = ''string''"
      by blast
    from less.hyps [OF lt v'] obtain out where
      "getStringConfig (Suc (rank (caps m 1))) config (caps m 1) = Some (Inr out)" by blast
    from getStringConfig_mono [OF this, of "rank name"] lt show ?thesis by auto
  qed
  from expandTokens_total [of ?ts "getStringConfig (rank name) config", OF this]
  obtain out where "expandTokens (getStringConfig (rank name) config) ?ts = Some (Inr out)"
    by blast
  with less.prems show ?case by simp
qed

lemma getStringConfig_returns_on:
  assumes res: "resolvableOn ns rank config"
  shows "name \<in> set ns \<Longrightarrow>
         \<exists>out. getStringConfig (Suc (rank name)) config name = Some (Inr out)"
proof (induction "rank name" arbitrary: name rule: less_induct)
  case less
  from res less.prems obtain v where v: "map_of config name = Some v" "type v = ''string''"
    and r: "\<And>x. x \<in> set (references (stringVal (un v))) \<Longrightarrow> x \<in> set ns \<and> rank x < rank name"
  proof -
    from res less.prems have "case map_of config name of
                   None \<Rightarrow> False
                 | Some v \<Rightarrow> type v = ''string'' \<and>
                     list_all (\<lambda>x. x \<in> set ns \<and> rank x < rank name)
                       (references (stringVal (un v)))"
      unfolding resolvableOn_def list_all_iff by blast
    then obtain v where "map_of config name = Some v" "type v = ''string''"
      "list_all (\<lambda>x. x \<in> set ns \<and> rank x < rank name) (references (stringVal (un v)))"
      by (cases "map_of config name") auto
    with that show ?thesis unfolding list_all_iff by blast
  qed
  let ?ts = "regex_tokens varSearch [] (stringVal (un v))"
  have "\<exists>out. getStringConfig (rank name) config (caps m 1) = Some (Inr out)"
    if "Inr m \<in> set ?ts" for m
  proof -
    from that have "caps m 1 \<in> set (references (stringVal (un v)))"
      by (auto simp: references_set)
    from r [OF this] have lt: "rank (caps m 1) < rank name" and i: "caps m 1 \<in> set ns"
      by blast+
    from less.hyps [OF lt i] obtain out where
      "getStringConfig (Suc (rank (caps m 1))) config (caps m 1) = Some (Inr out)" by blast
    from getStringConfig_mono [OF this, of "rank name"] lt show ?thesis by auto
  qed
  from expandTokens_total [of ?ts "getStringConfig (rank name) config", OF this]
  obtain out where "expandTokens (getStringConfig (rank name) config) ?ts = Some (Inr out)"
    by blast
  with v show ?case by simp
qed

lemma getStringConfig_unfold:
  assumes "getStringConfig (Suc n) config name = Some (Inr out)"
  shows "\<exists>v outs. map_of config name = Some v \<and> type v = ''string''
         \<and> list_all2 (replaced (getStringConfig n config)) (pieces (stringVal (un v))) outs
         \<and> out = concat outs"
proof -
  from assms obtain v where v: "map_of config name = Some v" "type v = ''string''"
    and e: "expandTokens (getStringConfig n config)
              (regex_tokens varSearch [] (stringVal (un v))) = Some (Inr out)"
    by (auto split: option.splits if_splits)
  from expandTokens_Inr [OF e] obtain outs where
    o: "list_all2 (replaced (getStringConfig n config)) (pieces (stringVal (un v))) outs"
       "out = concat outs"
    unfolding tokens_pieces by blast
  from v o show ?thesis by blast
qed

subsection \<open>Failures of the expansion\<close>

text \<open>
  The calls of \<open>expandVar\<close> are made from left to right, so the expansion of a text fails
  with the failure of the first reference whose call fails, when the calls for the
  references before it return; and a failure of the expansion is the failure of the call for
  one of the references. Every failure of \<open>getStringConfig\<close> is a not-found for a name
  that is not in the table, or a type mismatch for a name in the table that is not a string.
\<close>

lemma expandTokens_error:
  "expandTokens f ts = Some (Inl e) \<Longrightarrow> \<exists>m. Inr m \<in> set ts \<and> f (caps m 1) = Some (Inl e)"
proof (induction ts)
  case Nil
  then show ?case by simp
next
  case (Cons t ts)
  show ?case
  proof (cases t)
    case (Inl s)
    with Cons.prems have "expandTokens f ts = Some (Inl e)"
      by (auto split: option.splits sum.splits)
    from Cons.IH [OF this] show ?thesis by auto
  next
    case (Inr m)
    show ?thesis
    proof (cases "f (caps m 1) = Some (Inl e)")
      case True
      with Inr show ?thesis by auto
    next
      case False
      with Cons.prems Inr have "expandTokens f ts = Some (Inl e)"
        by (auto split: option.splits sum.splits)
      from Cons.IH [OF this] show ?thesis by auto
    qed
  qed
qed

lemma expandTokens_first_failure:
  assumes "f x = Some (Inl e)"
  shows "concat (map (\<lambda>p. case p of Inl _ \<Rightarrow> [] | Inr name \<Rightarrow> [name]) (map pieceOf ts)) = xs @ x # ys \<Longrightarrow>
         \<forall>y \<in> set xs. \<exists>out. f y = Some (Inr out) \<Longrightarrow>
         expandTokens f ts = Some (Inl e)"
proof (induction ts arbitrary: xs)
  case Nil
  then show ?case by simp
next
  case (Cons t ts)
  show ?case
  proof (cases t)
    case (Inl s)
    with Cons.prems have
      "concat (map (\<lambda>p. case p of Inl _ \<Rightarrow> [] | Inr name \<Rightarrow> [name]) (map pieceOf ts)) = xs @ x # ys"
      by (simp add: pieceOf_simps)
    from Cons.IH [OF this Cons.prems(2)] Inl show ?thesis by simp
  next
    case (Inr m)
    with Cons.prems(1) have c: "caps m 1 #
        concat (map (\<lambda>p. case p of Inl _ \<Rightarrow> [] | Inr name \<Rightarrow> [name]) (map pieceOf ts)) = xs @ x # ys"
      by (simp add: pieceOf_simps)
    show ?thesis
    proof (cases xs)
      case Nil
      with c have "caps m 1 = x" by simp
      with assms Inr show ?thesis by simp
    next
      case (Cons y xs')
      with c have y: "caps m 1 = y"
        and r: "concat (map (\<lambda>p. case p of Inl _ \<Rightarrow> [] | Inr name \<Rightarrow> [name]) (map pieceOf ts)) = xs' @ x # ys"
        by simp_all
      from Cons.prems(2) Cons obtain out where o: "f y = Some (Inr out)" by auto
      from Cons.prems(2) Cons have "\<forall>y \<in> set xs'. \<exists>out. f y = Some (Inr out)" by simp
      from Cons.IH [OF r this] Inr y o show ?thesis by simp
    qed
  qed
qed

lemma getStringConfig_first_failure:
  assumes "map_of config name = Some v" "type v = ''string''"
      and "references (stringVal (un v)) = xs @ x # ys"
      and "\<forall>y \<in> set xs. \<exists>out. getStringConfig n config y = Some (Inr out)"
      and "getStringConfig n config x = Some (Inl e)"
  shows "getStringConfig (Suc n) config name = Some (Inl e)"
proof -
  have "expandTokens (getStringConfig n config) (regex_tokens varSearch [] (stringVal (un v)))
          = Some (Inl e)"
  proof (rule expandTokens_first_failure [where f = "getStringConfig n config" and x = x
            and xs = xs and ys = ys])
    show "getStringConfig n config x = Some (Inl e)" by (rule assms(5))
    show "concat (map (\<lambda>p. case p of Inl _ \<Rightarrow> [] | Inr name \<Rightarrow> [name])
            (map pieceOf (regex_tokens varSearch [] (stringVal (un v))))) = xs @ x # ys"
      using assms(3) by (simp add: tokens_pieces references_def)
    show "\<forall>y \<in> set xs. \<exists>out. getStringConfig n config y = Some (Inr out)" by (rule assms(4))
  qed
  with assms(1,2) show ?thesis by simp
qed

lemma getStringConfig_failure_reference:
  assumes "map_of config name = Some v" "type v = ''string''"
      and "getStringConfig (Suc n) config name = Some (Inl e)"
  shows "\<exists>x \<in> set (references (stringVal (un v))). getStringConfig n config x = Some (Inl e)"
proof -
  from assms have "expandTokens (getStringConfig n config)
      (regex_tokens varSearch [] (stringVal (un v))) = Some (Inl e)"
    by simp
  from expandTokens_error [OF this] obtain m where
    m: "Inr m \<in> set (regex_tokens varSearch [] (stringVal (un v)))"
       "getStringConfig n config (caps m 1) = Some (Inl e)"
    by blast
  from m(1) have "caps m 1 \<in> set (references (stringVal (un v)))"
    by (auto simp: references_set)
  with m(2) show ?thesis by blast
qed

lemma getStringConfig_error_kinds:
  "getStringConfig n config name = Some (Inl e) \<Longrightarrow>
     (\<exists>y. e = NotFound y \<and> map_of config y = None)
     \<or> (\<exists>y v. e = TypeMismatch y ''string'' (type v) \<and> map_of config y = Some v
              \<and> type v \<noteq> ''string'')"
proof (induction n arbitrary: name)
  case 0
  then show ?case by simp
next
  case (Suc n)
  show ?case
  proof (cases "map_of config name")
    case None
    with Suc.prems show ?thesis by auto
  next
    case (Some v)
    show ?thesis
    proof (cases "type v = ''string''")
      case False
      with Some Suc.prems show ?thesis by auto
    next
      case True
      from getStringConfig_failure_reference [OF Some True Suc.prems] obtain x where
        "getStringConfig n config x = Some (Inl e)" by blast
      then show ?thesis by (rule Suc.IH)
    qed
  qed
qed

section \<open>What the getters return\<close>

lemma getIntConfig_contract: "getterContract getIntConfig ''int'' intVal config name"
  by (auto simp: getterContract_def getIntConfig_def split: option.splits)

lemma getFloatConfig_contract: "getterContract getFloatConfig ''float'' floatVal config name"
  by (auto simp: getterContract_def getFloatConfig_def split: option.splits)

lemma getBoolConfig_contract: "getterContract getBoolConfig ''bool'' boolVal config name"
  by (auto simp: getterContract_def getBoolConfig_def split: option.splits)

lemma getCharConfig_contract: "getterContract getCharConfig ''char'' charVal config name"
  by (auto simp: getterContract_def getCharConfig_def split: option.splits)

lemma getStringConfig_plain:
  assumes "map_of config name = Some v" "type v = ''string''" "CHR ''$'' \<notin> set (stringVal (un v))"
  shows "getStringConfig (Suc n) config name = Some (Inr (stringVal (un v)))"
  using assms by (simp add: tokens_no_dollar)

text \<open>
  C3 (as amended). \<open>getIntConfig\<close>, \<open>getFloatConfig\<close>, \<open>getBoolConfig\<close> and \<open>getCharConfig\<close>
  fail with not-found exactly when the name is absent, fail with a type mismatch exactly
  when the name has another type, the error naming the expected and the found type, and
  return the stored member otherwise. \<open>getStringConfig\<close> fails with not-found for an absent
  name and with a type mismatch for a name of another type. For a string entry it returns
  the stored text when that has no \<open>$\<close>; a text it returns is the stored text with each
  reference replaced by what the call for the referenced name returns; it fails with the
  failure of the first reference, from the left, whose name is absent (not-found for that
  name) or not a string (a type mismatch for that name), when the calls for the references
  before it return; a failure is always the failure of the call for one of the references,
  and names a name that is absent or not a string.
\<close>

theorem getters_fail_or_return:
  "getterContract getIntConfig ''int'' intVal config name
   \<and> getterContract getFloatConfig ''float'' floatVal config name
   \<and> getterContract getBoolConfig ''bool'' boolVal config name
   \<and> getterContract getCharConfig ''char'' charVal config name
   \<and> (map_of config name = None \<longrightarrow>
        getStringConfig (Suc n) config name = Some (Inl (NotFound name)))
   \<and> (\<forall>v. map_of config name = Some v \<and> type v \<noteq> ''string'' \<longrightarrow>
        getStringConfig (Suc n) config name = Some (Inl (TypeMismatch name ''string'' (type v))))
   \<and> (\<forall>v. map_of config name = Some v \<and> type v = ''string''
           \<and> CHR ''$'' \<notin> set (stringVal (un v)) \<longrightarrow>
        getStringConfig (Suc n) config name = Some (Inr (stringVal (un v))))
   \<and> (\<forall>v out. map_of config name = Some v \<and> type v = ''string''
           \<and> getStringConfig (Suc n) config name = Some (Inr out) \<longrightarrow>
        (\<exists>outs. list_all2 (replaced (getStringConfig n config)) (pieces (stringVal (un v))) outs
           \<and> out = concat outs))
   \<and> (\<forall>v xs x ys. map_of config name = Some v \<and> type v = ''string''
           \<and> references (stringVal (un v)) = xs @ x # ys
           \<and> (\<forall>y \<in> set xs. \<exists>out. getStringConfig (Suc n) config y = Some (Inr out)) \<longrightarrow>
        (map_of config x = None \<longrightarrow>
           getStringConfig (Suc (Suc n)) config name = Some (Inl (NotFound x)))
        \<and> (\<forall>v'. map_of config x = Some v' \<and> type v' \<noteq> ''string'' \<longrightarrow>
              getStringConfig (Suc (Suc n)) config name
                = Some (Inl (TypeMismatch x ''string'' (type v')))))
   \<and> (\<forall>v e. map_of config name = Some v \<and> type v = ''string''
           \<and> getStringConfig (Suc n) config name = Some (Inl e) \<longrightarrow>
        (\<exists>x \<in> set (references (stringVal (un v))). getStringConfig n config x = Some (Inl e)))
   \<and> (\<forall>e. getStringConfig k config name = Some (Inl e) \<longrightarrow>
        (\<exists>y. e = NotFound y \<and> map_of config y = None)
        \<or> (\<exists>y v'. e = TypeMismatch y ''string'' (type v') \<and> map_of config y = Some v'
               \<and> type v' \<noteq> ''string''))
   \<and> (\<forall>r j. getStringConfig j config name = Some r \<and> j \<le> k \<longrightarrow>
        getStringConfig k config name = Some r)"
proof -
  have 8: "\<forall>r j. getStringConfig j config name = Some r \<and> j \<le> k \<longrightarrow>
        getStringConfig k config name = Some r"
    using getStringConfig_mono [of _ config name _ k] by blast
  have 1: "\<forall>v. map_of config name = Some v \<and> type v = ''string''
           \<and> CHR ''$'' \<notin> set (stringVal (un v)) \<longrightarrow>
        getStringConfig (Suc n) config name = Some (Inr (stringVal (un v)))"
    by (simp add: tokens_no_dollar)
  have 2: "\<forall>v out. map_of config name = Some v \<and> type v = ''string''
           \<and> getStringConfig (Suc n) config name = Some (Inr out) \<longrightarrow>
        (\<exists>outs. list_all2 (replaced (getStringConfig n config)) (pieces (stringVal (un v))) outs
           \<and> out = concat outs)"
  proof (intro allI impI)
    fix v out
    assume a: "map_of config name = Some v \<and> type v = ''string''
           \<and> getStringConfig (Suc n) config name = Some (Inr out)"
    then have "getStringConfig (Suc n) config name = Some (Inr out)" by blast
    from getStringConfig_unfold [OF this] a
    show "\<exists>outs. list_all2 (replaced (getStringConfig n config)) (pieces (stringVal (un v))) outs
           \<and> out = concat outs"
      by auto
  qed
  have 3: "\<forall>v xs x ys. map_of config name = Some v \<and> type v = ''string''
           \<and> references (stringVal (un v)) = xs @ x # ys
           \<and> (\<forall>y \<in> set xs. \<exists>out. getStringConfig (Suc n) config y = Some (Inr out)) \<longrightarrow>
        (map_of config x = None \<longrightarrow>
           getStringConfig (Suc (Suc n)) config name = Some (Inl (NotFound x)))
        \<and> (\<forall>v'. map_of config x = Some v' \<and> type v' \<noteq> ''string'' \<longrightarrow>
              getStringConfig (Suc (Suc n)) config name
                = Some (Inl (TypeMismatch x ''string'' (type v'))))"
  proof (intro allI impI conjI)
    fix v xs x ys
    assume a: "map_of config name = Some v \<and> type v = ''string''
           \<and> references (stringVal (un v)) = xs @ x # ys
           \<and> (\<forall>y \<in> set xs. \<exists>out. getStringConfig (Suc n) config y = Some (Inr out))"
    assume "map_of config x = None"
    then have "getStringConfig (Suc n) config x = Some (Inl (NotFound x))" by simp
    with a show "getStringConfig (Suc (Suc n)) config name = Some (Inl (NotFound x))"
      using getStringConfig_first_failure [of config name v xs x ys "Suc n" "NotFound x"] by blast
  next
    fix v xs x ys v'
    assume a: "map_of config name = Some v \<and> type v = ''string''
           \<and> references (stringVal (un v)) = xs @ x # ys
           \<and> (\<forall>y \<in> set xs. \<exists>out. getStringConfig (Suc n) config y = Some (Inr out))"
    assume "map_of config x = Some v' \<and> type v' \<noteq> ''string''"
    then have "getStringConfig (Suc n) config x = Some (Inl (TypeMismatch x ''string'' (type v')))"
      by simp
    with a show "getStringConfig (Suc (Suc n)) config name
                = Some (Inl (TypeMismatch x ''string'' (type v')))"
      using getStringConfig_first_failure [of config name v xs x ys "Suc n"
              "TypeMismatch x ''string'' (type v')"]
      by blast
  qed
  have 4: "\<forall>v e. map_of config name = Some v \<and> type v = ''string''
           \<and> getStringConfig (Suc n) config name = Some (Inl e) \<longrightarrow>
        (\<exists>x \<in> set (references (stringVal (un v))). getStringConfig n config x = Some (Inl e))"
    using getStringConfig_failure_reference [of config name _ n] by blast
  have 5: "\<forall>e. getStringConfig k config name = Some (Inl e) \<longrightarrow>
        (\<exists>y. e = NotFound y \<and> map_of config y = None)
        \<or> (\<exists>y v'. e = TypeMismatch y ''string'' (type v') \<and> map_of config y = Some v'
               \<and> type v' \<noteq> ''string'')"
    using getStringConfig_error_kinds [of k config name] by blast
  have 6: "map_of config name = None \<longrightarrow>
        getStringConfig (Suc n) config name = Some (Inl (NotFound name))"
    by simp
  have 7: "\<forall>v. map_of config name = Some v \<and> type v \<noteq> ''string'' \<longrightarrow>
        getStringConfig (Suc n) config name = Some (Inl (TypeMismatch name ''string'' (type v)))"
    by simp
  from getIntConfig_contract [of config name] getFloatConfig_contract [of config name]
       getBoolConfig_contract [of config name] getCharConfig_contract [of config name]
       6 7 1 2 3 4 5 8
  show ?thesis by (intro conjI)
qed

lemma mixed_facts:
  "map_of mixed ''T'' = Some \<lparr>type = ''string'', un = StringVal ''$C and $N''\<rparr>"
  "references ''$C and $N'' = [''C'', ''N'']"
  "getStringConfig (Suc 0) mixed ''C'' = Some (Inr ''c'')"
  "map_of mixed ''N'' = Some \<lparr>type = ''int'', un = IntVal 7\<rparr>"
  by code_simp+

lemma dangling_facts:
  "map_of dangling ''S'' = Some \<lparr>type = ''string'', un = StringVal ''$M''\<rparr>"
  "references ''$M'' = [''M'']"
  "map_of dangling ''M'' = None"
  by code_simp+

theorem getters_fail_or_return_witness:
  "map_of dangling ''N'' = Some \<lparr>type = ''int'', un = IntVal 7\<rparr>
   \<and> getIntConfig dangling ''N'' = Inr 7
   \<and> getBoolConfig dangling ''N'' = Inl (TypeMismatch ''N'' ''bool'' ''int'')
   \<and> map_of dangling ''Q'' = None
   \<and> getIntConfig dangling ''Q'' = Inl (NotFound ''Q'')
   \<and> getStringConfig (Suc 0) dangling ''Q'' = Some (Inl (NotFound ''Q''))
   \<and> getStringConfig (Suc 0) dangling ''N'' = Some (Inl (TypeMismatch ''N'' ''string'' ''int''))
   \<and> map_of chain ''C'' = Some \<lparr>type = ''string'', un = StringVal ''c''\<rparr>
   \<and> getStringConfig (Suc 0) chain ''C'' = Some (Inr ''c'')
   \<and> map_of dangling ''S'' = Some \<lparr>type = ''string'', un = StringVal ''$M''\<rparr>
   \<and> references ''$M'' = [''M'']
   \<and> getStringConfig (Suc (Suc 0)) dangling ''S'' = Some (Inl (NotFound ''M''))
   \<and> map_of mixed ''T'' = Some \<lparr>type = ''string'', un = StringVal ''$C and $N''\<rparr>
   \<and> references ''$C and $N'' = [''C'', ''N'']
   \<and> getStringConfig (Suc 0) mixed ''C'' = Some (Inr ''c'')
   \<and> getStringConfig (Suc (Suc 0)) mixed ''T'' = Some (Inl (TypeMismatch ''N'' ''string'' ''int''))
   \<and> (\<exists>x \<in> set (references ''$C and $N'').
         getStringConfig (Suc 0) mixed x = Some (Inl (TypeMismatch ''N'' ''string'' ''int'')))
   \<and> getStringConfig 9 mixed ''T'' = Some (Inl (TypeMismatch ''N'' ''string'' ''int''))
   \<and> ((\<exists>y. NotFound ''M'' = NotFound y \<and> map_of dangling y = None)
        \<or> (\<exists>y v'. NotFound ''M'' = TypeMismatch y ''string'' (type v') \<and> map_of dangling y = Some v'
               \<and> type v' \<noteq> ''string''))"
proof -
  have d: "map_of dangling ''N'' = Some \<lparr>type = ''int'', un = IntVal 7\<rparr>"
      "map_of dangling ''Q'' = None"
      "map_of chain ''C'' = Some \<lparr>type = ''string'', un = StringVal ''c''\<rparr>"
    by (simp_all add: dangling_def chain_def)
  note t = getters_fail_or_return [of dangling "''N''" 0 0]
  from t d(1)
  have 1: "getIntConfig dangling ''N'' = Inr 7"
       "getBoolConfig dangling ''N'' = Inl (TypeMismatch ''N'' ''bool'' ''int'')"
       "getStringConfig (Suc 0) dangling ''N'' = Some (Inl (TypeMismatch ''N'' ''string'' ''int''))"
    by (auto simp: getterContract_def simp del: getStringConfig.simps)
  from getters_fail_or_return [of dangling "''Q''" 0 0] d(2)
  have 2: "getIntConfig dangling ''Q'' = Inl (NotFound ''Q'')"
       "getStringConfig (Suc 0) dangling ''Q'' = Some (Inl (NotFound ''Q''))"
    by (auto simp: getterContract_def simp del: getStringConfig.simps)
  from getters_fail_or_return [of chain "''C''" 0 0, THEN conjunct2, THEN conjunct2, THEN conjunct2,
         THEN conjunct2, THEN conjunct2, THEN conjunct2, THEN conjunct1] d(3)
  have 3: "getStringConfig (Suc 0) chain ''C'' = Some (Inr ''c'')"
    by (simp del: getStringConfig.simps)
  note f = getters_fail_or_return [of dangling "''S''" 0 0, THEN conjunct2, THEN conjunct2, THEN conjunct2,
         THEN conjunct2, THEN conjunct2, THEN conjunct2, THEN conjunct2, THEN conjunct2, THEN conjunct1,
         rule_format, of "\<lparr>type = ''string'', un = StringVal ''$M''\<rparr>" "[]" "''M''" "[]"]
  have "map_of dangling ''S'' = Some \<lparr>type = ''string'', un = StringVal ''$M''\<rparr>
      \<and> type \<lparr>type = ''string'', un = StringVal ''$M''\<rparr> = ''string''
      \<and> references (stringVal (un \<lparr>type = ''string'', un = StringVal ''$M''\<rparr>)) = [] @ ''M'' # []
      \<and> (\<forall>y \<in> set []. \<exists>out. getStringConfig (Suc 0) dangling y = Some (Inr out))"
    using dangling_facts(1,2) by (simp del: getStringConfig.simps)
  from f [OF this, THEN conjunct1] dangling_facts(3)
  have 4: "getStringConfig (Suc (Suc 0)) dangling ''S'' = Some (Inl (NotFound ''M''))"
    by blast
  note g = getters_fail_or_return [of mixed "''T''" 0 0, THEN conjunct2, THEN conjunct2, THEN conjunct2,
         THEN conjunct2, THEN conjunct2, THEN conjunct2, THEN conjunct2, THEN conjunct2, THEN conjunct1,
         rule_format, of "\<lparr>type = ''string'', un = StringVal ''$C and $N''\<rparr>" "[''C'']" "''N''" "[]"]
  have "map_of mixed ''T'' = Some \<lparr>type = ''string'', un = StringVal ''$C and $N''\<rparr>
      \<and> type \<lparr>type = ''string'', un = StringVal ''$C and $N''\<rparr> = ''string''
      \<and> references (stringVal (un \<lparr>type = ''string'', un = StringVal ''$C and $N''\<rparr>)) = [''C''] @ ''N'' # []
      \<and> (\<forall>y \<in> set [''C'']. \<exists>out. getStringConfig (Suc 0) mixed y = Some (Inr out))"
    using mixed_facts(1,2,3) by (simp del: getStringConfig.simps)
  from g [OF this, THEN conjunct2, rule_format, of "\<lparr>type = ''int'', un = IntVal 7\<rparr>"] mixed_facts(4)
  have 5: "getStringConfig (Suc (Suc 0)) mixed ''T'' = Some (Inl (TypeMismatch ''N'' ''string'' ''int''))"
    by simp
  have "map_of mixed ''T'' = Some \<lparr>type = ''string'', un = StringVal ''$C and $N''\<rparr>
      \<and> type \<lparr>type = ''string'', un = StringVal ''$C and $N''\<rparr> = ''string''
      \<and> getStringConfig (Suc (Suc 0)) mixed ''T'' = Some (Inl (TypeMismatch ''N'' ''string'' ''int''))"
    using mixed_facts(1) 5 by (simp del: getStringConfig.simps)
  from getters_fail_or_return [of mixed "''T''" "Suc 0" 0, THEN conjunct2, THEN conjunct2, THEN conjunct2, THEN conjunct2, THEN conjunct2, THEN conjunct2, THEN conjunct2, THEN conjunct2, THEN conjunct2, THEN conjunct1,
         rule_format, OF this]
  have 7: "\<exists>x \<in> set (references ''$C and $N'').
         getStringConfig (Suc 0) mixed x = Some (Inl (TypeMismatch ''N'' ''string'' ''int''))"
    by (simp del: getStringConfig.simps)
  have "getStringConfig (Suc (Suc 0)) mixed ''T'' = Some (Inl (TypeMismatch ''N'' ''string'' ''int''))
      \<and> Suc (Suc 0) \<le> 9"
    using 5 by (simp del: getStringConfig.simps)
  from getters_fail_or_return [of mixed "''T''" 0 9, THEN conjunct2, THEN conjunct2, THEN conjunct2, THEN conjunct2, THEN conjunct2, THEN conjunct2, THEN conjunct2, THEN conjunct2, THEN conjunct2, THEN conjunct2, THEN conjunct2, rule_format, OF this]
  have 8: "getStringConfig 9 mixed ''T'' = Some (Inl (TypeMismatch ''N'' ''string'' ''int''))" .
  from getters_fail_or_return [of dangling "''S''" 0 "Suc (Suc 0)", THEN conjunct2, THEN conjunct2, THEN conjunct2, THEN conjunct2, THEN conjunct2, THEN conjunct2, THEN conjunct2, THEN conjunct2, THEN conjunct2, THEN conjunct2, THEN conjunct1,
         rule_format, OF 4]
  have 9: "(\<exists>y. NotFound ''M'' = NotFound y \<and> map_of dangling y = None)
        \<or> (\<exists>y v'. NotFound ''M'' = TypeMismatch y ''string'' (type v') \<and> map_of dangling y = Some v'
               \<and> type v' \<noteq> ''string'')" .
  from d(1) 1(1,2) d(2) 2 1(3) d(3) 3 dangling_facts(1,2) 4 mixed_facts(1,2,3) 5 7 8 9
  show ?thesis by (intro conjI)
qed

text \<open>
  The claim C3 as it was stated fails for \<open>getStringConfig\<close>: the name \<open>S\<close> is in the table
  with the type \<open>string\<close>, and the call fails with not-found, for the name \<open>M\<close> that the
  text of \<open>S\<close> refers to.
\<close>

theorem getString_fails_for_other_name:
  "map_of dangling ''S'' = Some \<lparr>type = ''string'', un = StringVal ''$M''\<rparr>
   \<and> getStringConfig (Suc 1) dangling ''S'' = Some (Inl (NotFound ''M''))"
  by code_simp

section \<open>References that do not resolve\<close>

text \<open>
  When every name that a text refers to makes \<open>expandVar\<close> not return, the expansion of the
  text does not return. For two entries that refer to each other, \<open>getStringConfig\<close> does
  not return, whatever the bound of the depth.
\<close>

lemma expandTokens_None:
  "(\<And>m. Inr m \<in> set ts \<Longrightarrow> f (caps m 1) = None) \<Longrightarrow> \<exists>m. Inr m \<in> set ts \<Longrightarrow>
     expandTokens f ts = None"
proof (induction ts)
  case Nil
  then show ?case by simp
next
  case (Cons t ts)
  show ?case
  proof (cases t)
    case (Inl s)
    with Cons.prems have "\<exists>m. Inr m \<in> set ts" by auto
    with Cons.IH Cons.prems(1) have "expandTokens f ts = None" by simp
    with Inl show ?thesis by simp
  next
    case (Inr m)
    with Cons.prems(1) [of m] show ?thesis by simp
  qed
qed

lemma references_None:
  assumes "references s \<noteq> []" "\<And>x. x \<in> set (references s) \<Longrightarrow> f x = None"
  shows "expandTokens f (regex_tokens varSearch [] s) = None"
proof (rule expandTokens_None)
  fix m
  assume "Inr m \<in> set (regex_tokens varSearch [] s)"
  then have "caps m 1 \<in> set (references s)" by (auto simp: references_set)
  then show "f (caps m 1) = None" by (rule assms(2))
next
  from assms(1) obtain x where "x \<in> set (references s)" by (cases "references s") auto
  then show "\<exists>m. Inr m \<in> set (regex_tokens varSearch [] s)" by (auto simp: references_set)
qed

lemma mutual_references:
  "references ''$B'' = [''B'']" "references ''$A'' = [''A'']"
  by code_simp+

lemma mutual_never_returns:
  "getStringConfig n mutual ''A'' = None \<and> getStringConfig n mutual ''B'' = None"
proof (induction n)
  case 0
  show ?case by simp
next
  case (Suc n)
  have "getStringConfig (Suc n) mutual ''A''
          = expandTokens (getStringConfig n mutual) (regex_tokens varSearch [] ''$B'')"
       "getStringConfig (Suc n) mutual ''B''
          = expandTokens (getStringConfig n mutual) (regex_tokens varSearch [] ''$A'')"
    by (simp_all add: mutual_def)
  moreover have "expandTokens (getStringConfig n mutual) (regex_tokens varSearch [] ''$B'') = None"
    using Suc by (intro references_None) (simp_all add: mutual_references)
  moreover have "expandTokens (getStringConfig n mutual) (regex_tokens varSearch [] ''$A'') = None"
    using Suc by (intro references_None) (simp_all add: mutual_references)
  ultimately show ?case by (simp del: getStringConfig.simps)
qed

section \<open>Expansion is recursive\<close>

text \<open>
  C1 (as amended). A reference in a stored text is a \<open>$\<close> with a name of the form
  \<open>[A-Za-z][A-Za-z0-9_-]*\<close> right after it, the leftmost first and the name as long as it
  can be (\<open>pieces\<close>, which is what the search for \<open>varSearch\<close> finds). When
  \<open>getStringConfig\<close> returns a text, the text is the stored text with every reference
  replaced by what \<open>getStringConfig\<close> itself returns for that name: the text put in is
  expanded again. The call returns a text when the references can be ranked, every text
  referring to string entries of smaller rank only, and a result does not depend on the
  bound of the depth. For the call to return it is enough that the names the call can reach
  are ranked so: the name is in a list of string entries whose texts refer to names of the
  list with smaller ranks only, whatever the other entries of the table refer to.
\<close>

theorem expansion_is_recursive:
  "(getStringConfig (Suc n) config name = Some (Inr out) \<longrightarrow>
      (\<exists>v outs. map_of config name = Some v \<and> type v = ''string''
         \<and> list_all2 (replaced (getStringConfig n config)) (pieces (stringVal (un v))) outs
         \<and> out = concat outs))
   \<and> (resolvable rank config \<and> map_of config name = Some v \<and> type v = ''string'' \<longrightarrow>
        (\<exists>out. getStringConfig (Suc (rank name)) config name = Some (Inr out)))
   \<and> (getStringConfig n config name = Some r \<and> n \<le> k \<longrightarrow>
        getStringConfig k config name = Some r)
   \<and> (resolvableOn ns rank config \<and> name \<in> set ns \<longrightarrow>
        (\<exists>out. getStringConfig (Suc (rank name)) config name = Some (Inr out)))"
proof (intro conjI impI)
  assume "getStringConfig (Suc n) config name = Some (Inr out)"
  then show "\<exists>v outs. map_of config name = Some v \<and> type v = ''string''
         \<and> list_all2 (replaced (getStringConfig n config)) (pieces (stringVal (un v))) outs
         \<and> out = concat outs"
    by (rule getStringConfig_unfold)
next
  assume "resolvable rank config \<and> map_of config name = Some v \<and> type v = ''string''"
  then show "\<exists>out. getStringConfig (Suc (rank name)) config name = Some (Inr out)"
    using getStringConfig_returns [of rank config name v] by blast
next
  assume "getStringConfig n config name = Some r \<and> n \<le> k"
  then show "getStringConfig k config name = Some r"
    using getStringConfig_mono [of n config name r k] by blast
next
  assume "resolvableOn ns rank config \<and> name \<in> set ns"
  then show "\<exists>out. getStringConfig (Suc (rank name)) config name = Some (Inr out)"
    using getStringConfig_returns_on [of ns rank config name] by blast
qed

lemma chain_facts:
  "getStringConfig (Suc 2) chain ''A'' = Some (Inr ''xc'')"
  "resolvable chainRank chain"
  "map_of chain ''A'' = Some \<lparr>type = ''string'', un = StringVal ''$B''\<rparr>"
  "chainRank ''A'' = 2"
  by code_simp+

lemma partlyCyclic_facts:
  "resolvableOn [''A'', ''B''] chainRank partlyCyclic"
  "\<not> resolvable chainRank partlyCyclic"
  "getStringConfig (Suc 2) partlyCyclic ''A'' = Some (Inr ''b'')"
  by code_simp+

theorem expansion_is_recursive_witness:
  "getStringConfig (Suc 2) chain ''A'' = Some (Inr ''xc'')
   \<and> (\<exists>v outs. map_of chain ''A'' = Some v \<and> type v = ''string''
         \<and> list_all2 (replaced (getStringConfig 2 chain)) (pieces (stringVal (un v))) outs
         \<and> ''xc'' = concat outs)
   \<and> resolvable chainRank chain
   \<and> map_of chain ''A'' = Some \<lparr>type = ''string'', un = StringVal ''$B''\<rparr>
   \<and> (\<exists>out. getStringConfig (Suc (chainRank ''A'')) chain ''A'' = Some (Inr out))
   \<and> getStringConfig 7 chain ''A'' = Some (Inr ''xc'')
   \<and> resolvableOn [''A'', ''B''] chainRank partlyCyclic
   \<and> (\<exists>out. getStringConfig (Suc (chainRank ''A'')) partlyCyclic ''A'' = Some (Inr out))"
proof -
  note t = expansion_is_recursive [of 2 chain "''A''" "''xc''" chainRank
         "\<lparr>type = ''string'', un = StringVal ''$B''\<rparr>" "Inr ''xc''" 7]
  have c: "type \<lparr>type = ''string'', un = StringVal ''$B''\<rparr> = ''string''" by simp
  from t chain_facts(1) have 1: "\<exists>v outs. map_of chain ''A'' = Some v \<and> type v = ''string''
         \<and> list_all2 (replaced (getStringConfig 2 chain)) (pieces (stringVal (un v))) outs
         \<and> ''xc'' = concat outs"
    by blast
  from t chain_facts(2,3) c
  have 2: "\<exists>out. getStringConfig (Suc (chainRank ''A'')) chain ''A'' = Some (Inr out)"
    by blast
  from expansion_is_recursive [of "Suc 2" chain "''A''" "''xc''" chainRank
         "\<lparr>type = ''string'', un = StringVal ''$B''\<rparr>" "Inr ''xc''" 7] chain_facts(1)
  have 3: "getStringConfig 7 chain ''A'' = Some (Inr ''xc'')"
    by simp
  have "resolvableOn [''A'', ''B''] chainRank partlyCyclic \<and> ''A'' \<in> set [''A'', ''B'']"
    using partlyCyclic_facts(1) by simp
  from expansion_is_recursive [where config = partlyCyclic and name = "''A''" and rank = chainRank
         and ns = "[''A'', ''B'']", THEN conjunct2, THEN conjunct2, THEN conjunct2, THEN mp, OF this]
  have 4: "\<exists>out. getStringConfig (Suc (chainRank ''A'')) partlyCyclic ''A'' = Some (Inr out)" .
  from chain_facts(1,2,3) 1 2 3 partlyCyclic_facts(1) 4 show ?thesis by (intro conjI)
qed

text \<open>
  The claim C1 as it was stated fails on the table \<open>chain\<close>: the text of \<open>A\<close> is \<open>$B\<close>, the
  stored text of \<open>B\<close> is \<open>x$C\<close>, and the call for \<open>A\<close> returns \<open>xc\<close>.
\<close>

theorem expansion_not_one_level:
  "getStringConfig (Suc 2) chain ''A'' = Some (Inr ''xc'')
   \<and> expandOneLevel chain ''$B'' = ''x$C''
   \<and> getStringConfig (Suc 2) chain ''A'' \<noteq> Some (Inr (expandOneLevel chain ''$B''))"
  by code_simp

end
